theory Spec2Isabelle
  imports Complex_Main "HOL-Library.Word" "HOL-Library.Sublist"
begin

section \<open>Violation parser (\<open>MultimodalLiveClient.extractViolations\<close>)\<close>

text \<open>
  A JavaScript string is a sequence of UTF-16 code units. The regular expression of the parser
  has no \<open>u\<close> flag, so it classifies single code units, and so does \<open>String.prototype.trim\<close>.
\<close>

type_synonym code_unit = "16 word"
type_synonym jsstring = "code_unit list"

definition js :: "string \<Rightarrow> jsstring" where
  "js s = map of_char s"

text \<open>
  The class \<open>\s\<close> of ECMAScript: WhiteSpace (TAB, VT, FF, ZWNBSP and the space separators)
  and LineTerminator (LF, CR, LS, PS). \<open>trim\<close> strips the same code units.
\<close>

definition is_space :: "code_unit \<Rightarrow> bool" where
  "is_space c \<longleftrightarrow>
     c = 0x9 \<or> c = 0xA \<or> c = 0xB \<or> c = 0xC \<or> c = 0xD \<or> c = 0x20 \<or> c = 0xA0 \<or>
     c = 0x1680 \<or> (0x2000 \<le> c \<and> c \<le> 0x200A) \<or> c = 0x2028 \<or> c = 0x2029 \<or>
     c = 0x202F \<or> c = 0x205F \<or> c = 0x3000 \<or> c = 0xFEFF"

definition newline :: code_unit where
  "newline = 0xA"

definition trim :: "jsstring \<Rightarrow> jsstring" where
  "trim s = rev (dropWhile is_space (rev (dropWhile is_space s)))"

record ViolationEvent =
  type :: jsstring
  timestamp :: string
  confidence :: real
  details :: "jsstring option"

text \<open>The literal part of \<open>/PROCTORING_VIOLATION:\s*([^\n]+)/g\<close>.\<close>

definition MARKER :: jsstring where
  "MARKER = js ''PROCTORING_VIOLATION:''"

text \<open>
  \<open>([^\n]+)\<close> at the head of the text: at least one code unit other than LF, as many as
  there are. The result is the captured group and the text after the match.
\<close>

definition capture_at :: "jsstring \<Rightarrow> (jsstring \<times> jsstring) option" where
  "capture_at s =
     (if s \<noteq> [] \<and> hd s \<noteq> newline
      then Some (takeWhile (\<lambda>c. c \<noteq> newline) s, dropWhile (\<lambda>c. c \<noteq> newline) s)
      else None)"

text \<open>
  \<open>\s*([^\n]+)\<close> with the backtracking of the engine: the star takes a white-space code unit
  and goes on; when the rest cannot match, it gives the code unit back and the group is tried
  at it.
\<close>

fun spaces_then_capture :: "jsstring \<Rightarrow> (jsstring \<times> jsstring) option" where
  "spaces_then_capture [] = None"
| "spaces_then_capture (c # cs) =
     (if is_space c
      then (case spaces_then_capture cs of
              Some r \<Rightarrow> Some r
            | None \<Rightarrow> capture_at (c # cs))
      else capture_at (c # cs))"

text \<open>The whole expression, tried at the head of the text.\<close>

definition match_at :: "jsstring \<Rightarrow> (jsstring \<times> jsstring) option" where
  "match_at s =
     (if prefix MARKER s then spaces_then_capture (drop (length MARKER) s) else None)"

text \<open>
  \<open>violationRegex.exec(text)\<close> on the text from \<open>lastIndex\<close> on: the first position at which
  the expression matches. \<open>None\<close> is the \<open>null\<close> of the source; otherwise the group and the
  text from the new \<open>lastIndex\<close> on.
\<close>

fun exec :: "jsstring \<Rightarrow> (jsstring \<times> jsstring) option" where
  "exec [] = match_at []"
| "exec (c # cs) =
     (case match_at (c # cs) of
        Some r \<Rightarrow> Some r
      | None \<Rightarrow> exec cs)"

lemma capture_at_shorter:
  "capture_at s = Some (cap, rest) \<Longrightarrow> length rest \<le> length s"
  by (auto simp: capture_at_def split: if_splits intro: length_dropWhile_le)

lemma spaces_then_capture_shorter:
  "spaces_then_capture s = Some (cap, rest) \<Longrightarrow> length rest \<le> length s"
proof (induction s)
  case Nil
  then show ?case by simp
next
  case (Cons c cs)
  then show ?case
    by (auto split: if_splits option.splits dest: capture_at_shorter)
qed

lemma MARKER_length: "length MARKER = 21"
  by (simp add: MARKER_def js_def)

lemma match_at_shorter:
  assumes "match_at s = Some (cap, rest)"
  shows "length rest < length s"
proof -
  from assms have p: "prefix MARKER s"
    and c: "spaces_then_capture (drop (length MARKER) s) = Some (cap, rest)"
    by (auto simp: match_at_def split: if_splits)
  from p have "length MARKER \<le> length s"
    by (rule prefix_length_le)
  moreover from c have "length rest \<le> length s - length MARKER"
    by (auto dest: spaces_then_capture_shorter)
  ultimately show ?thesis
    by (simp add: MARKER_length)
qed

lemma exec_shorter:
  "exec s = Some (cap, rest) \<Longrightarrow> length rest < length s"
proof (induction s)
  case Nil
  then show ?case by (auto dest: match_at_shorter)
next
  case (Cons c cs)
  then show ?case
    by (fastforce split: option.splits dest: match_at_shorter)
qed

text \<open>
  The \<open>while ((match = violationRegex.exec(text)) !== null)\<close> loop. \<open>ts\<close> is the reading of
  \<open>new Date().toISOString()\<close>, \<open>text\<close> the whole input (the \<open>details\<close> of every event) and
  the last argument the input from \<open>lastIndex\<close> on.
\<close>

function violations_loop :: "string \<Rightarrow> jsstring \<Rightarrow> jsstring \<Rightarrow> ViolationEvent list" where
  "violations_loop ts text s =
     (case exec s of
        None \<Rightarrow> []
      | Some (cap, rest) \<Rightarrow>
          \<lparr>type = trim cap, timestamp = ts, confidence = 9 / 10, details = Some text\<rparr>
            # violations_loop ts text rest)"
  by pat_completeness auto
termination
  by (relation "measure (\<lambda>(ts, text, s). length s)") (auto dest: exec_shorter)

declare violations_loop.simps [simp del]

definition extractViolations :: "string \<Rightarrow> jsstring \<Rightarrow> ViolationEvent list" where
  "extractViolations ts text = violations_loop ts text text"

section \<open>Edge rate limiter (\<open>middleware.ts\<close>)\<close>

text \<open>\<open>rateLimit.windowMs\<close> and \<open>rateLimit.max\<close>.\<close>

definition windowMs :: int where
  "windowMs = 60 * 1000"

definition max_requests :: int where
  "max_requests = 100"

record RateLimitEntry =
  count :: int
  resetTime :: int

text \<open>\<open>ipRequestMap\<close>, the module-level table from client address to entry.\<close>

type_synonym ipRequestMap = "string \<rightharpoonup> RateLimitEntry"

text \<open>
  What the middleware reads of a request: \<open>request.nextUrl.pathname\<close> and \<open>request.ip\<close>,
  which is \<open>undefined\<close> (\<open>None\<close>) when the platform gives no address.
\<close>

record NextRequest =
  pathname :: string
  ip :: "string option"

text \<open>
  A response: \<open>Continue\<close> is the body-less \<open>NextResponse.next()\<close>, which hands the request on to
  its route; \<open>TooManyRequests n\<close> is the JSON text of
  \<open>{error: 'Too many requests', retryAfter: n}\<close>.
\<close>

datatype response_body = Continue | TooManyRequests int

record NextResponse =
  status :: nat
  headers :: "string \<rightharpoonup> string"
  body :: response_body

text \<open>
  \<open>Number.prototype.toString\<close> on an integer below \<open>10\<^sup>2\<^sup>1\<close> in absolute value: its
  decimal digits.
\<close>

fun digits :: "nat \<Rightarrow> string" where
  "digits n =
     (if n < 10 then [''0123456789'' ! n]
      else digits (n div 10) @ [''0123456789'' ! (n mod 10)])"

declare digits.simps [simp del]

definition toString :: "int \<Rightarrow> string" where
  "toString i = (if i < 0 then CHR ''-'' # digits (nat (- i)) else digits (nat i))"

text \<open>
  \<open>Math.ceil(ms / 1000)\<close>. The division of the source is in double precision; for the
  clock readings of \<open>Date.now()\<close> its ceiling is the exact one.
\<close>

definition ceil_seconds :: "int \<Rightarrow> int" where
  "ceil_seconds ms = \<lceil>real_of_int ms / 1000\<rceil>"

text \<open>The headers set on every response that is handed on.\<close>

definition security_headers :: "string \<rightharpoonup> string" where
  "security_headers =
     [''X-DNS-Prefetch-Control'' \<mapsto> ''on'',
      ''Strict-Transport-Security'' \<mapsto> ''max-age=31536000; includeSubDomains'',
      ''X-Frame-Options'' \<mapsto> ''SAMEORIGIN'',
      ''X-Content-Type-Options'' \<mapsto> ''nosniff'',
      ''Referrer-Policy'' \<mapsto> ''origin-when-cross-origin'',
      ''Permissions-Policy'' \<mapsto> ''camera=(self), microphone=(self), geolocation=()'',
      ''Content-Security-Policy'' \<mapsto>
        ''default-src 'self'; script-src 'self' 'unsafe-inline' 'unsafe-eval'; '' @
        ''style-src 'self' 'unsafe-inline'; img-src 'self' blob: data:; '' @
        ''media-src 'self' blob:; '' @
        ''connect-src 'self' wss://generativelanguage.googleapis.com '' @
        ''https://generativelanguage.googleapis.com; frame-ancestors 'none'; '' @
        ''form-action 'self'; base-uri 'self'' @ [CHR 0x27]]"

text \<open>
  The branch on the table (lines 62 to 95 of \<open>middleware.ts\<close>) for the address \<open>a\<close> at the
  clock reading \<open>now\<close>: \<open>Inl n\<close> is the early return of the rejection, with
  \<open>n = Math.ceil((data.resetTime - now) / 1000)\<close>; \<open>Inr\<close> is the table after the request was
  counted.
\<close>

definition count_request :: "int \<Rightarrow> string \<Rightarrow> ipRequestMap \<Rightarrow> int + ipRequestMap" where
  "count_request now a m =
     (case m a of
        None \<Rightarrow> Inr (m(a \<mapsto> \<lparr>count = 1, resetTime = now + windowMs\<rparr>))
      | Some data \<Rightarrow>
          if now > resetTime data
          then Inr (m(a \<mapsto> \<lparr>count = 1, resetTime = now + windowMs\<rparr>))
          else if count data \<ge> max_requests
          then Inl (ceil_seconds (resetTime data - now))
          else Inr (m(a \<mapsto> data\<lparr>count := count data + 1\<rparr>)))"

text \<open>
  \<open>middleware(request)\<close>. \<open>now\<close> is the reading of \<open>Date.now()\<close> of the rate limiter and \<open>dur\<close>
  the difference of the two readings behind \<open>Server-Timing\<close>. The result is the response and
  the table after the call. Header names are kept as the source writes them. After a request
  was counted, the entry that \<open>ipRequestMap.get(ip)!\<close> reads is there
  (\<open>count_request_present\<close> below).
\<close>

definition middleware ::
  "int \<Rightarrow> int \<Rightarrow> NextRequest \<Rightarrow> ipRequestMap \<Rightarrow> NextResponse \<times> ipRequestMap" where
  "middleware now dur request m =
     (let headers = security_headers in
      if prefix ''/api/'' (pathname request)
      then
        (let a = (case ip request of Some addr \<Rightarrow> addr | None \<Rightarrow> ''127.0.0.1'') in
         case count_request now a m of
           Inl retryAfter \<Rightarrow>
             (\<lparr>status = 429,
               headers = [''Content-Type'' \<mapsto> ''application/json'',
                          ''Retry-After'' \<mapsto> toString retryAfter],
               body = TooManyRequests retryAfter\<rparr>, m)
         | Inr m' \<Rightarrow>
             (let rateLimitData = the (m' a);
                  headers = headers
                    (''X-RateLimit-Limit'' \<mapsto> toString max_requests,
                     ''X-RateLimit-Remaining'' \<mapsto> toString (max_requests - count rateLimitData),
                     ''X-RateLimit-Reset'' \<mapsto> toString (ceil_seconds (resetTime rateLimitData)))
              in (\<lparr>status = 200,
                   headers = headers(''Server-Timing'' \<mapsto> ''total;dur='' @ toString dur),
                   body = Continue\<rparr>, m')))
      else
        (\<lparr>status = 200,
          headers = headers(''Server-Timing'' \<mapsto> ''total;dur='' @ toString dur),
          body = Continue\<rparr>, m))"

text \<open>The sweep of \<open>setInterval\<close>: every entry whose window has passed is deleted.\<close>

definition sweep :: "int \<Rightarrow> ipRequestMap \<Rightarrow> ipRequestMap" where
  "sweep now m =
     (\<lambda>a. case m a of
            None \<Rightarrow> None
          | Some data \<Rightarrow> if now > resetTime data then None else Some data)"

text \<open>
  A run of the server: the calls of the middleware, each with its two clock readings, and
  the sweeps between them, in the order they happen. The result is the responses, in order,
  and the table at the end.
\<close>

datatype server_event = Request int int NextRequest | Sweep int

fun serve :: "server_event list \<Rightarrow> ipRequestMap \<Rightarrow> NextResponse list \<times> ipRequestMap" where
  "serve [] m = ([], m)"
| "serve (Request now dur request # es) m =
     (let (response, m') = middleware now dur request m;
          (responses, m'') = serve es m'
      in (response # responses, m''))"
| "serve (Sweep now # es) m = serve es (sweep now m)"

section \<open>The client (\<open>MultimodalLiveClient\<close>)\<close>

record frame_metadata =
  width :: nat
  height :: nat
  quality :: real

record VideoFrame =
  imageData :: string
  frame_timestamp :: int
  metadata :: "frame_metadata option"

text \<open>The body of the POST of \<open>analyzeFrame\<close>: one inline image and the fixed settings.\<close>

record GeminiRequest =
  mime_type :: string
  data :: string
  temperature :: real
  topP :: real
  topK :: nat
  maxOutputTokens :: nat
  safety_category :: string
  safety_threshold :: string

text \<open>
  The part of a reply that \<open>processViolations\<close> reads,
  \<open>response.candidates?.[0]?.content?.parts\<close> and the \<open>text\<close> of each part; \<open>None\<close> is a
  property that is absent.
\<close>

record Part =
  part_text :: "jsstring option"

record Content =
  parts :: "Part list option"

record Candidate =
  content :: "Content option"

record GeminiResponse =
  candidates :: "Candidate list option"

text \<open>
  The calls of \<open>emit\<close>, by event name and argument. Every listener registered for the name is
  called once per call of \<open>emit\<close>. The payload of a configuration is any value. The error
  object of an \<open>error\<close> event is left out.
\<close>

datatype 'c signal =
    Open
  | Close
  | Error
  | Config 'c
  | Violation ViolationEvent

text \<open>
  An activation of \<open>processFrameQueue\<close> that is suspended inside \<open>analyzeFrame\<close>: at
  \<open>await fetch(...)\<close>, at \<open>await response.json()\<close>, or after \<open>analyzeFrame\<close> has come to its
  end and before the \<open>finally\<close> block runs.
\<close>

datatype stage = AwaitFetch | AwaitJson | AwaitReturn

text \<open>
  The fields of the class, and what the client has done: the activations that are suspended
  (\<open>pending\<close>), the bodies of the POST requests made so far (\<open>fetches\<close>) and the calls of
  \<open>emit\<close> so far (\<open>emitted\<close>). Confidence and threshold are numbers of the source, taken as
  reals. The calls of the logger by the client are left out.
\<close>

record 'c MultimodalLiveClient =
  apiKey :: string
  url :: string
  connected :: bool
  lastAnalysisTime :: int
  analysisInterval :: int
  confidenceThreshold :: real
  frameQueue :: "VideoFrame list"
  processingFrames :: bool
  pending :: "stage list"
  fetches :: "GeminiRequest list"
  emitted :: "'c signal list"

text \<open>The constructor.\<close>

definition new_client :: "string \<Rightarrow> string \<Rightarrow> 'c MultimodalLiveClient" where
  "new_client u k =
     \<lparr>apiKey = k, url = u, connected = False, lastAnalysisTime = 0, analysisInterval = 2000,
      confidenceThreshold = 7 / 10, frameQueue = [], processingFrames = False,
      pending = [], fetches = [], emitted = []\<rparr>"

definition emit :: "'c signal \<Rightarrow> 'c MultimodalLiveClient \<Rightarrow> 'c MultimodalLiveClient" where
  "emit e s = s\<lparr>emitted := emitted s @ [e]\<rparr>"

text \<open>
  \<open>connect()\<close> from the moment the health check settles: \<open>ok\<close> tells whether the request
  succeeded with a 2xx status. Before that moment \<open>connect\<close> changes nothing.
\<close>

definition connect_settled :: "bool \<Rightarrow> 'c MultimodalLiveClient \<Rightarrow> 'c MultimodalLiveClient" where
  "connect_settled ok s = (if ok then emit Open (s\<lparr>connected := True\<rparr>) else emit Error s)"

definition disconnect :: "'c MultimodalLiveClient \<Rightarrow> 'c MultimodalLiveClient" where
  "disconnect s = emit Close (s\<lparr>connected := False\<rparr>)"

definition isConnected :: "'c MultimodalLiveClient \<Rightarrow> bool" where
  "isConnected s = connected s"

definition sendConfig :: "'c \<Rightarrow> 'c MultimodalLiveClient \<Rightarrow> 'c MultimodalLiveClient" where
  "sendConfig config s = emit (Config config) s"

text \<open>\<open>shouldAnalyzeFrame()\<close> at the clock reading \<open>now\<close>: the answer and the client after it.\<close>

definition shouldAnalyzeFrame :: "int \<Rightarrow> 'c MultimodalLiveClient \<Rightarrow> bool \<times> 'c MultimodalLiveClient" where
  "shouldAnalyzeFrame now s =
     (if now - lastAnalysisTime s \<ge> analysisInterval s
      then (True, s\<lparr>lastAnalysisTime := now\<rparr>)
      else (False, s))"

text \<open>The request that \<open>analyzeFrame\<close> builds for a frame.\<close>

definition build_request :: "VideoFrame \<Rightarrow> GeminiRequest" where
  "build_request frame =
     \<lparr>mime_type = ''image/jpeg'', data = imageData frame, temperature = 1 / 10,
      topP = 1, topK = 32, maxOutputTokens = 256,
      safety_category = ''HARM_CATEGORY_DANGEROUS_CONTENT'',
      safety_threshold = ''BLOCK_LOW_AND_ABOVE''\<rparr>"

text \<open>
  \<open>analyzeFrame(frame)\<close> up to \<open>await fetch(...)\<close>: the request is built and sent, and the
  activation is suspended.
\<close>

definition analyzeFrame :: "VideoFrame \<Rightarrow> 'c MultimodalLiveClient \<Rightarrow> 'c MultimodalLiveClient" where
  "analyzeFrame frame s =
     (let request = build_request frame
      in s\<lparr>fetches := fetches s @ [request], pending := pending s @ [AwaitFetch]\<rparr>)"

text \<open>
  \<open>processFrameQueue()\<close> at the clock reading \<open>now\<close>, up to its first suspension or its end.
  When the frame is not analysed nothing is awaited, and the \<open>finally\<close> block runs at once.
\<close>

function processFrameQueue :: "int \<Rightarrow> 'c MultimodalLiveClient \<Rightarrow> 'c MultimodalLiveClient" where
  "processFrameQueue now s =
     (if processingFrames s \<or> frameQueue s = [] then s
      else
        (let s = s\<lparr>processingFrames := True\<rparr>;
             frame = last (frameQueue s);
             s = s\<lparr>frameQueue := butlast (frameQueue s)\<rparr>;
             s = s\<lparr>frameQueue := []\<rparr>
         in case shouldAnalyzeFrame now s of
              (True, s) \<Rightarrow> analyzeFrame frame s
            | (False, s) \<Rightarrow>
                (let s = s\<lparr>processingFrames := False\<rparr>
                 in if length (frameQueue s) > 0 then processFrameQueue now s else s)))"
  by pat_completeness auto
termination
  by (relation "measure (\<lambda>(now, s). length (frameQueue s))")
    (auto simp: shouldAnalyzeFrame_def split: if_splits)

declare processFrameQueue.simps [simp del]

text \<open>The \<open>finally\<close> block of \<open>processFrameQueue\<close> after a suspension, at the clock reading \<open>now\<close>.\<close>

definition finally_block :: "int \<Rightarrow> 'c MultimodalLiveClient \<Rightarrow> 'c MultimodalLiveClient" where
  "finally_block now s =
     (let s = s\<lparr>processingFrames := False\<rparr>
      in if length (frameQueue s) > 0 then processFrameQueue now s else s)"

text \<open>\<open>frameData.slice(frameData.indexOf(',') + 1)\<close>; \<open>indexOf\<close> is \<open>-1\<close> without a comma.\<close>

definition after_comma :: "string \<Rightarrow> string" where
  "after_comma s =
     (if CHR '','' \<in> set s then tl (dropWhile (\<lambda>c. c \<noteq> CHR '','') s) else s)"

text \<open>The frame that \<open>sendVideoFrame\<close> makes of its argument at the clock reading \<open>now\<close>.\<close>

definition new_frame :: "string \<Rightarrow> int \<Rightarrow> VideoFrame" where
  "new_frame frameData now =
     \<lparr>imageData = after_comma frameData, frame_timestamp = now,
      metadata = Some \<lparr>width = 640, height = 480, quality = 8 / 10\<rparr>\<rparr>"

text \<open>
  \<open>sendVideoFrame(frameData)\<close> at the clock reading \<open>now\<close>, up to its first suspension or
  its end.
\<close>

definition sendVideoFrame ::
  "string \<Rightarrow> int \<Rightarrow> 'c MultimodalLiveClient \<Rightarrow> 'c MultimodalLiveClient" where
  "sendVideoFrame frameData now s =
     (let frame = new_frame frameData now;
          s = s\<lparr>frameQueue := frameQueue s @ [frame]\<rparr>
      in if \<not> processingFrames s then processFrameQueue now s else s)"

text \<open>The inner loop of \<open>processViolations\<close>, over the events of one part.\<close>

fun emit_violations ::
  "ViolationEvent list \<Rightarrow> 'c MultimodalLiveClient \<Rightarrow> 'c MultimodalLiveClient" where
  "emit_violations [] s = s"
| "emit_violations (violation # violations) s =
     emit_violations violations
       (if confidence violation \<ge> confidenceThreshold s then emit (Violation violation) s
        else s)"

text \<open>
  The outer loop, over the parts; \<open>if (part.text)\<close> holds for a text that is present and not
  empty. \<open>ts\<close> is the reading of the clock behind the time stamps.
\<close>

fun process_parts ::
  "string \<Rightarrow> Part list \<Rightarrow> 'c MultimodalLiveClient \<Rightarrow> 'c MultimodalLiveClient" where
  "process_parts ts [] s = s"
| "process_parts ts (part # ps) s =
     process_parts ts ps
       (case part_text part of
          None \<Rightarrow> s
        | Some t \<Rightarrow> if t \<noteq> [] then emit_violations (extractViolations ts t) s else s)"

text \<open>\<open>response.candidates?.[0]?.content?.parts\<close>.\<close>

definition response_parts :: "GeminiResponse \<Rightarrow> Part list option" where
  "response_parts response =
     (case candidates response of
        None \<Rightarrow> None
      | Some [] \<Rightarrow> None
      | Some (c # _) \<Rightarrow> (case content c of None \<Rightarrow> None | Some ct \<Rightarrow> parts ct))"

definition processViolations ::
  "string \<Rightarrow> GeminiResponse \<Rightarrow> 'c MultimodalLiveClient \<Rightarrow> 'c MultimodalLiveClient" where
  "processViolations ts response s =
     (case response_parts response of
        None \<Rightarrow> s
      | Some ps \<Rightarrow> process_parts ts ps s)"

text \<open>
  How the request of an activation settles: the promise of \<open>fetch\<close> is rejected, or the
  response is not \<open>ok\<close>, or it is.
\<close>

datatype fetch_result = Rejected | NotOk | HttpOk

text \<open>
  \<open>analyzeFrame\<close> goes on when \<open>fetch\<close> settles for the activation \<open>i\<close>: a failure is thrown
  and caught, and \<open>error\<close> is emitted.
\<close>

definition fetch_settled ::
  "nat \<Rightarrow> fetch_result \<Rightarrow> 'c MultimodalLiveClient \<Rightarrow> 'c MultimodalLiveClient" where
  "fetch_settled i result s =
     (if i < length (pending s) \<and> pending s ! i = AwaitFetch
      then (case result of
              HttpOk \<Rightarrow> s\<lparr>pending := (pending s)[i := AwaitJson]\<rparr>
            | _ \<Rightarrow> emit Error (s\<lparr>pending := (pending s)[i := AwaitReturn]\<rparr>))
      else s)"

text \<open>
  \<open>analyzeFrame\<close> goes on when \<open>response.json()\<close> settles for the activation \<open>i\<close>: with the
  reply, which goes through \<open>processViolations\<close>, or with a failure (\<open>None\<close>), which is
  caught.
\<close>

definition json_settled ::
  "nat \<Rightarrow> GeminiResponse option \<Rightarrow> string \<Rightarrow> 'c MultimodalLiveClient \<Rightarrow>
   'c MultimodalLiveClient" where
  "json_settled i reply ts s =
     (if i < length (pending s) \<and> pending s ! i = AwaitJson
      then (case reply of
              Some response \<Rightarrow>
                processViolations ts response (s\<lparr>pending := (pending s)[i := AwaitReturn]\<rparr>)
            | None \<Rightarrow> emit Error (s\<lparr>pending := (pending s)[i := AwaitReturn]\<rparr>))
      else s)"

text \<open>
  \<open>processFrameQueue\<close> goes on after \<open>await this.analyzeFrame(frame)\<close> for the activation
  \<open>i\<close>, at the clock reading \<open>now\<close>: the activation is over and its \<open>finally\<close> block runs.
\<close>

definition resumed :: "nat \<Rightarrow> int \<Rightarrow> 'c MultimodalLiveClient \<Rightarrow> 'c MultimodalLiveClient" where
  "resumed i now s =
     (if i < length (pending s) \<and> pending s ! i = AwaitReturn
      then finally_block now (s\<lparr>pending := take i (pending s) @ drop (Suc i) (pending s)\<rparr>)
      else s)"

text \<open>
  What happens to a client, one synchronous run at a time: a method is called, or a
  suspended activation goes on. A run is a list of such events.
\<close>

datatype 'c event =
    ConnectSettled bool
  | Disconnect
  | SendConfig 'c
  | SendVideoFrame string int
  | FetchSettled nat fetch_result
  | JsonSettled nat "GeminiResponse option" string
  | Resumed nat int

fun step :: "'c event \<Rightarrow> 'c MultimodalLiveClient \<Rightarrow> 'c MultimodalLiveClient" where
  "step (ConnectSettled ok) s = connect_settled ok s"
| "step Disconnect s = disconnect s"
| "step (SendConfig config) s = sendConfig config s"
| "step (SendVideoFrame frameData now) s = sendVideoFrame frameData now s"
| "step (FetchSettled i result) s = fetch_settled i result s"
| "step (JsonSettled i reply ts) s = json_settled i reply ts s"
| "step (Resumed i now) s = resumed i now s"

fun run :: "'c event list \<Rightarrow> 'c MultimodalLiveClient \<Rightarrow> 'c MultimodalLiveClient" where
  "run [] s = s"
| "run (e # es) s = run es (step e s)"

section \<open>The callers of the client (\<open>LiveAPIProvider\<close>, \<open>VideoProctor\<close>)\<close>

text \<open>
  The provider holds the client, or \<open>null\<close> before it is made. \<open>warnings\<close> are its calls of
  \<open>logger.warn\<close>.
\<close>

record 'c LiveAPIProvider =
  client :: "'c MultimodalLiveClient option"
  warnings :: "string list"

definition provider_sendConfig :: "'c \<Rightarrow> 'c LiveAPIProvider \<Rightarrow> 'c LiveAPIProvider" where
  "provider_sendConfig config p =
     (case client p of
        Some c \<Rightarrow>
          if isConnected c then p\<lparr>client := Some (sendConfig config c)\<rparr>
          else p\<lparr>warnings := warnings p @ [''Cannot send config: client not connected'']\<rparr>
      | None \<Rightarrow> p\<lparr>warnings := warnings p @ [''Cannot send config: client not connected'']\<rparr>)"

definition provider_disconnect :: "'c LiveAPIProvider \<Rightarrow> 'c LiveAPIProvider" where
  "provider_disconnect p =
     (case client p of
        Some c \<Rightarrow> if isConnected c then p\<lparr>client := Some (disconnect c)\<rparr> else p
      | None \<Rightarrow> p)"

text \<open>
  \<open>captureFrame\<close> of \<open>VideoProctor\<close>: \<open>video\<close> tells whether \<open>videoRef.current\<close> is set,
  \<open>is_connected\<close> is the \<open>connected\<close> of the provider as the component sees it, and
  \<open>frameData\<close> is what \<open>captureVideoFrame\<close> returns, \<open>None\<close> for \<open>null\<close>.
\<close>

definition captureFrame ::
  "bool \<Rightarrow> bool \<Rightarrow> string option \<Rightarrow> int \<Rightarrow> 'c MultimodalLiveClient option \<Rightarrow>
   'c MultimodalLiveClient option" where
  "captureFrame video is_connected frameData now cl =
     (case cl of
        None \<Rightarrow> None
      | Some c \<Rightarrow>
          if \<not> video \<or> \<not> is_connected then Some c
          else (case frameData of
                  None \<Rightarrow> Some c
                | Some d \<Rightarrow> if d \<noteq> [] then Some (sendVideoFrame d now c) else Some c))"

section \<open>The notions of the statements\<close>

text \<open>
  \<open>occurs p s\<close>: the pattern \<open>p\<close> is a substring of \<open>s\<close>. A text is given by its lines,
  joined by LF. A line either does not contain the marker, or is a marker line: some text
  without the marker, the marker, and the category text up to the line break, which holds at
  least one code unit that is not white space.
\<close>

fun occurs :: "jsstring \<Rightarrow> jsstring \<Rightarrow> bool" where
  "occurs p [] = prefix p []"
| "occurs p (c # cs) = (prefix p (c # cs) \<or> occurs p cs)"

datatype line = Other jsstring | MarkerLine jsstring jsstring

fun render :: "line \<Rightarrow> jsstring" where
  "render (Other l) = l"
| "render (MarkerLine pre cat) = pre @ MARKER @ cat"

fun wf_line :: "line \<Rightarrow> bool" where
  "wf_line (Other l) = (newline \<notin> set l \<and> \<not> occurs MARKER l)"
| "wf_line (MarkerLine pre cat) =
     (newline \<notin> set pre \<and> \<not> occurs MARKER pre \<and> newline \<notin> set cat \<and> \<not> list_all is_space cat)"

fun unlines :: "jsstring list \<Rightarrow> jsstring" where
  "unlines [] = []"
| "unlines [l] = l"
| "unlines (l # k # ls) = l @ newline # unlines (k # ls)"

fun categories :: "line list \<Rightarrow> jsstring list" where
  "categories [] = []"
| "categories (Other l # ls) = categories ls"
| "categories (MarkerLine pre cat # ls) = cat # categories ls"

text \<open>
  The requests of one client, one for each pair of clock readings (the reading of the rate
  limiter and the duration behind \<open>Server-Timing\<close>).
\<close>

definition requests_at :: "NextRequest \<Rightarrow> (int \<times> int) list \<Rightarrow> server_event list" where
  "requests_at request ts = map (\<lambda>(now, dur). Request now dur request) ts"

text \<open>
  A request under \<open>/api/\<close> that carries no address and is made at a clock reading not after
  \<open>R\<close>.
\<close>

fun addressless_before :: "int \<Rightarrow> server_event \<Rightarrow> bool" where
  "addressless_before R (Request now dur request) =
     (prefix ''/api/'' (pathname request) \<and> ip request = None \<and> now \<le> R)"
| "addressless_before R (Sweep now) = False"

text \<open>
  The violation events produced from a reply: the events that the parser finds in the text
  of each part, part after part.
\<close>

definition produced :: "string \<Rightarrow> GeminiResponse \<Rightarrow> ViolationEvent list" where
  "produced ts response =
     concat (map (\<lambda>part. case part_text part of
                           None \<Rightarrow> []
                         | Some t \<Rightarrow> extractViolations ts t)
               (case response_parts response of None \<Rightarrow> [] | Some ps \<Rightarrow> ps))"

text \<open>
  The analyses in flight: the activations that have sent their request and have not yet
  come to the end of their \<open>finally\<close> block. An event is a completion when it is the end of
  an activation, and a submission when it is a call of \<open>sendVideoFrame\<close>.
\<close>

definition in_flight :: "'c MultimodalLiveClient \<Rightarrow> nat" where
  "in_flight s = length (pending s)"

fun is_completion :: "'c event \<Rightarrow> bool" where
  "is_completion (Resumed i now) = True"
| "is_completion _ = False"

fun is_submission :: "'c event \<Rightarrow> bool" where
  "is_submission (SendVideoFrame frameData now) = True"
| "is_submission _ = False"

text \<open>
  The states in which the flag \<open>processingFrames\<close> tells whether an analysis is in flight,
  and at most one is.
\<close>

definition consistent :: "'c MultimodalLiveClient \<Rightarrow> bool" where
  "consistent s \<longleftrightarrow> length (pending s) \<le> 1 \<and> (processingFrames s \<longleftrightarrow> pending s \<noteq> [])"

section \<open>The parser on marker lines\<close>

lemma MARKER_no_newline: "newline \<notin> set MARKER"
  by (simp add: MARKER_def js_def newline_def)

lemma MARKER_hd: "MARKER = 0x50 # tl MARKER"
  by (simp add: MARKER_def js_def)

lemma MARKER_tl: "0x50 \<notin> set (tl MARKER)"
  by (simp add: MARKER_def js_def)

lemma not_prefix_newline:
  assumes "\<not> prefix MARKER l"
  shows "\<not> prefix MARKER (l @ newline # r)"
proof
  assume "prefix MARKER (l @ newline # r)"
  with assms obtain us where m: "MARKER = l @ us" and p: "prefix us (newline # r)"
    by (auto simp: prefix_append)
  from m assms have "us \<noteq> []" by auto
  with p obtain vs where "us = newline # vs" by (cases us) auto
  with m have "\<exists>ys zs. MARKER = ys @ newline # zs" by blast
  then have "newline \<in> set MARKER" by (simp only: in_set_conv_decomp)
  with MARKER_no_newline show False by simp
qed

lemma not_prefix_marker:
  assumes "\<not> prefix MARKER l" and "l \<noteq> []"
  shows "\<not> prefix MARKER (l @ MARKER @ t)"
proof
  assume "prefix MARKER (l @ MARKER @ t)"
  with assms obtain us where m: "MARKER = l @ us" and p: "prefix us (MARKER @ t)"
    by (auto simp: prefix_append)
  from m assms have "us \<noteq> []" by auto
  moreover from p have "prefix us (0x50 # (tl MARKER @ t))"
    by (metis MARKER_hd append_Cons)
  ultimately obtain vs where "us = 0x50 # vs"
    by (cases us) auto
  moreover from assms(2) obtain a l' where "l = a # l'"
    by (cases l) auto
  ultimately have "tl MARKER = l' @ 0x50 # vs"
    using m by (metis append_Cons list.sel(3))
  then have "\<exists>ys zs. tl MARKER = ys @ 0x50 # zs" by blast
  then have "0x50 \<in> set (tl MARKER)" by (simp only: in_set_conv_decomp)
  with MARKER_tl show False by simp
qed

lemma exec_no_marker:
  "\<not> occurs MARKER s \<Longrightarrow> exec s = None"
  by (induction s) (auto simp: match_at_def)

lemma exec_skip_line:
  "\<not> occurs MARKER l \<Longrightarrow> exec (l @ newline # r) = exec r"
proof (induction l)
  case Nil
  have "\<not> prefix MARKER ([] @ newline # r)"
    by (rule not_prefix_newline) (simp add: MARKER_def js_def)
  then show ?case by (simp add: match_at_def)
next
  case (Cons c cs)
  then have "\<not> prefix MARKER (c # cs)" and "\<not> occurs MARKER cs" by auto
  from not_prefix_newline [OF this(1)] Cons.IH [OF this(2)]
  show ?case by (simp add: match_at_def)
qed

lemma exec_skip_pre:
  "\<not> occurs MARKER pre \<Longrightarrow> exec (pre @ MARKER @ t) = exec (MARKER @ t)"
proof (induction pre)
  case Nil
  then show ?case by simp
next
  case (Cons c cs)
  then have "\<not> prefix MARKER (c # cs)" and "\<not> occurs MARKER cs" by auto
  from not_prefix_marker [OF this(1)] Cons.IH [OF this(2)]
  show ?case by (simp add: match_at_def)
qed

lemma exec_at_marker:
  assumes "spaces_then_capture t = Some r"
  shows "exec (MARKER @ t) = Some r"
proof -
  have "match_at (MARKER @ t) = Some r"
    using assms by (simp add: match_at_def)
  moreover have "MARKER @ t = 0x50 # tl MARKER @ t"
    using MARKER_hd by (metis append_Cons)
  ultimately show ?thesis
    by (metis exec.simps(2) option.simps(5))
qed

lemma capture_category:
  assumes "newline \<notin> set cs" and "c \<noteq> newline" and "t = [] \<or> hd t = newline"
  shows "capture_at (c # cs @ t) = Some (c # cs, t)"
proof -
  from assms(1) have tw: "takeWhile (\<lambda>x. x \<noteq> newline) (cs @ t) = cs @ takeWhile (\<lambda>x. x \<noteq> newline) t"
    by (intro takeWhile_append2) auto
  from assms(1) have dw: "dropWhile (\<lambda>x. x \<noteq> newline) (cs @ t) = dropWhile (\<lambda>x. x \<noteq> newline) t"
    by (intro dropWhile_append2) auto
  from assms(3) have "takeWhile (\<lambda>x. x \<noteq> newline) t = []" and "dropWhile (\<lambda>x. x \<noteq> newline) t = t"
    by (cases t; auto)+
  with tw dw assms(2) show ?thesis
    by (simp add: capture_at_def)
qed

lemma spaces_then_capture_category:
  assumes "\<not> list_all is_space cat" and "newline \<notin> set cat" and "t = [] \<or> hd t = newline"
  shows "spaces_then_capture (cat @ t) = Some (dropWhile is_space cat, t)"
  using assms(1,2)
proof (induction cat)
  case Nil
  then show ?case by simp
next
  case (Cons c cs)
  show ?case
  proof (cases "is_space c")
    case True
    with Cons show ?thesis by simp
  next
    case False
    from Cons.prems have "newline \<notin> set cs" and "c \<noteq> newline" by auto
    from capture_category [OF this assms(3)] False show ?thesis by simp
  qed
qed

lemma trim_dropWhile: "trim (dropWhile is_space s) = trim s"
  by (simp add: trim_def dropWhile_idem)

lemma exec_newline: "exec (newline # r) = exec r"
  using exec_skip_line [of "[]" r] by (simp add: MARKER_def js_def)

lemma violations_loop_cong:
  assumes "exec s = exec s'"
  shows "violations_loop ts text s = violations_loop ts text s'"
  by (subst violations_loop.simps, subst (2) violations_loop.simps) (simp add: assms)

lemma violations_loop_none:
  "exec s = None \<Longrightarrow> violations_loop ts text s = []"
  by (subst violations_loop.simps) simp

lemma violations_loop_some:
  "exec s = Some (cap, rest) \<Longrightarrow>
   violations_loop ts text s =
     \<lparr>type = trim cap, timestamp = ts, confidence = 9 / 10, details = Some text\<rparr>
       # violations_loop ts text rest"
  by (subst violations_loop.simps) simp

lemma exec_marker_line:
  assumes "wf_line (MarkerLine pre cat)" and "t = [] \<or> hd t = newline"
  shows "exec (render (MarkerLine pre cat) @ t) = Some (dropWhile is_space cat, t)"
proof -
  from assms have "spaces_then_capture (cat @ t) = Some (dropWhile is_space cat, t)"
    by (intro spaces_then_capture_category) auto
  then have "exec (MARKER @ cat @ t) = Some (dropWhile is_space cat, t)"
    by (rule exec_at_marker)
  moreover from assms(1) have "exec (pre @ MARKER @ cat @ t) = exec (MARKER @ cat @ t)"
    by (intro exec_skip_pre) simp
  ultimately show ?thesis by simp
qed

lemma violations_loop_lines:
  assumes "\<forall>l \<in> set ls. wf_line l"
  shows "violations_loop ts text (unlines (map render ls)) =
         map (\<lambda>cat. \<lparr>type = trim cat, timestamp = ts, confidence = 9 / 10, details = Some text\<rparr>)
           (categories ls)"
  using assms
proof (induction ls rule: induct_list012)
  case 1
  show ?case by (simp add: violations_loop_none match_at_def)
next
  case (2 l)
  show ?case
  proof (cases l)
    case (Other s)
    with 2 have "exec s = None" by (intro exec_no_marker) simp
    with Other show ?thesis by (simp add: violations_loop_none)
  next
    case (MarkerLine pre cat)
    with 2 have "wf_line (MarkerLine pre cat)" by simp
    from exec_marker_line [OF this, of "[]"]
    have "exec (pre @ MARKER @ cat) = Some (dropWhile is_space cat, [])" by simp
    from violations_loop_some [OF this] MarkerLine show ?thesis
      by (simp add: violations_loop_none match_at_def trim_dropWhile)
  qed
next
  case (3 l k ls)
  let ?R = "unlines (map render (k # ls))"
  from 3 have IH: "violations_loop ts text ?R =
      map (\<lambda>cat. \<lparr>type = trim cat, timestamp = ts, confidence = 9 / 10, details = Some text\<rparr>)
        (categories (k # ls))"
    by simp
  have skip: "violations_loop ts text (newline # ?R) = violations_loop ts text ?R"
    by (intro violations_loop_cong) (rule exec_newline)
  show ?case
  proof (cases l)
    case (Other s)
    with 3 have "exec (s @ newline # ?R) = exec ?R" by (intro exec_skip_line) simp
    then have "violations_loop ts text (s @ newline # ?R) = violations_loop ts text ?R"
      by (rule violations_loop_cong)
    with Other IH show ?thesis by simp
  next
    case (MarkerLine pre cat)
    with 3 have "wf_line (MarkerLine pre cat)" by simp
    from exec_marker_line [OF this, of "newline # ?R"]
    have "exec (pre @ MARKER @ cat @ newline # ?R) = Some (dropWhile is_space cat, newline # ?R)"
      by simp
    from violations_loop_some [OF this] MarkerLine IH skip show ?thesis
      by (simp add: trim_dropWhile)
  qed
qed

text \<open>
  C1, as the code has it. A text whose lines are marker lines (the marker followed by a category that is not blank)
  and lines without the marker yields exactly one event per marker line, in the order of the
  lines; the type of each event is the category text of its line with the white space at both
  ends removed. A text in which the marker does not occur yields no event.
\<close>

theorem extractViolations_marker_lines:
  "((\<forall>l \<in> set ls. wf_line l) \<longrightarrow>
      extractViolations ts (unlines (map render ls)) =
        map (\<lambda>cat. \<lparr>type = trim cat, timestamp = ts, confidence = 9 / 10,
                     details = Some (unlines (map render ls))\<rparr>)
          (categories ls)) \<and>
   (\<not> occurs MARKER text \<longrightarrow> extractViolations ts text = [])"
  unfolding extractViolations_def
  by (simp add: violations_loop_lines violations_loop_none exec_no_marker)

text \<open>
  Two marker lines as in the test of the repository, the second indented and with a blank
  at its end, and a reply without a marker.
\<close>

theorem extractViolations_marker_lines_witness:
  "extractViolations ''2024-05-01T10:00:00.000Z''
     (js ''PROCTORING_VIOLATION: Looking Away'' @ newline #
      js ''                     PROCTORING_VIOLATION: Multiple Faces Detected '') =
   [\<lparr>type = js ''Looking Away'', timestamp = ''2024-05-01T10:00:00.000Z'', confidence = 9 / 10,
     details = Some (js ''PROCTORING_VIOLATION: Looking Away'' @ newline #
      js ''                     PROCTORING_VIOLATION: Multiple Faces Detected '')\<rparr>,
    \<lparr>type = js ''Multiple Faces Detected'', timestamp = ''2024-05-01T10:00:00.000Z'',
     confidence = 9 / 10,
     details = Some (js ''PROCTORING_VIOLATION: Looking Away'' @ newline #
      js ''                     PROCTORING_VIOLATION: Multiple Faces Detected '')\<rparr>] \<and>
   extractViolations ''2024-05-01T10:00:00.000Z'' (js ''No violations detected.'') = []"
  using extractViolations_marker_lines
    [of "[MarkerLine [] (js '' Looking Away''),
          MarkerLine (js ''                     '') (js '' Multiple Faces Detected '')]"
        "''2024-05-01T10:00:00.000Z''" "js ''No violations detected.''"]
  by (simp add: js_def MARKER_def is_space_def newline_def trim_def)

text \<open>
  A marker with nothing but white space after it on its line is not a marker line, and a
  text that holds one is treated otherwise. In the first text the second line is a marker
  line with the category \<open>Looking Away\<close>; the white space that the expression skips after the
  bare marker of the first line includes the line break, so the one event has the whole
  second line as its type. The second and the third text hold no marker line and give one
  event each: of the empty type for a blank category, and of the next line.
\<close>

theorem extractViolations_marker_lines_counterexample:
  "wf_line (MarkerLine [] (js '' Looking Away'')) \<and>
   trim (js '' Looking Away'') = js ''Looking Away'' \<and>
   map type (extractViolations ''2024-05-01T10:00:00.000Z''
     (js ''PROCTORING_VIOLATION:'' @ newline # js ''PROCTORING_VIOLATION: Looking Away'')) =
     [js ''PROCTORING_VIOLATION: Looking Away''] \<and>
   map type (extractViolations ''2024-05-01T10:00:00.000Z'' (js ''PROCTORING_VIOLATION: '')) =
     [[]] \<and>
   map type (extractViolations ''2024-05-01T10:00:00.000Z''
     (js ''PROCTORING_VIOLATION:'' @ newline # js ''no violation'')) =
     [js ''no violation'']"
proof -
  let ?ts = "''2024-05-01T10:00:00.000Z''"
  let ?next = "js ''PROCTORING_VIOLATION: Looking Away''"
  have "wf_line (MarkerLine [] (js '' Looking Away''))"
    by (simp add: js_def MARKER_def is_space_def newline_def)
  moreover have "trim (js '' Looking Away'') = js ''Looking Away''"
    by (simp add: trim_def js_def is_space_def)
  moreover have "map type (extractViolations ?ts (js ''PROCTORING_VIOLATION:'' @ newline # ?next)) =
      [?next]"
  proof -
    have "spaces_then_capture (newline # ?next) = Some (?next, [])"
      by (simp add: capture_at_def js_def is_space_def newline_def)
    then have "exec (MARKER @ newline # ?next) = Some (?next, [])"
      by (rule exec_at_marker)
    from violations_loop_some [OF this] show ?thesis
      by (simp add: extractViolations_def MARKER_def violations_loop_none match_at_def
          trim_def js_def is_space_def)
  qed
  moreover have "map type (extractViolations ?ts (js ''PROCTORING_VIOLATION: '')) = [[]]"
  proof -
    have "spaces_then_capture (js '' '') = Some (js '' '', [])"
      by (simp add: capture_at_def js_def is_space_def newline_def)
    then have "exec (MARKER @ js '' '') = Some (js '' '', [])"
      by (rule exec_at_marker)
    from violations_loop_some [OF this] show ?thesis
      by (simp add: extractViolations_def MARKER_def violations_loop_none match_at_def
          trim_def js_def is_space_def)
  qed
  moreover have "map type (extractViolations ?ts
      (js ''PROCTORING_VIOLATION:'' @ newline # js ''no violation'')) = [js ''no violation'']"
  proof -
    have "spaces_then_capture (newline # js ''no violation'') = Some (js ''no violation'', [])"
      by (simp add: capture_at_def js_def is_space_def newline_def)
    then have "exec (MARKER @ newline # js ''no violation'') = Some (js ''no violation'', [])"
      by (rule exec_at_marker)
    from violations_loop_some [OF this] show ?thesis
      by (simp add: extractViolations_def MARKER_def violations_loop_none match_at_def
          trim_def js_def is_space_def)
  qed
  ultimately show ?thesis by blast
qed

section \<open>The rate limiter at the boundary of the window\<close>

lemma count_request_present:
  "count_request now a m = Inr m' \<Longrightarrow> m' a \<noteq> None"
  by (auto simp: count_request_def split: option.splits if_splits)


text \<open>An allowed request: the address has an open window with room left.\<close>

lemma middleware_counted:
  assumes "prefix ''/api/'' (pathname request)" and "ip request = Some a"
    and "m a = Some \<lparr>count = c, resetTime = R\<rparr>" and "now \<le> R" and "c < max_requests"
  shows "status (fst (middleware now dur request m)) = 200"
    and "body (fst (middleware now dur request m)) = Continue"
    and "snd (middleware now dur request m) = m(a \<mapsto> \<lparr>count = c + 1, resetTime = R\<rparr>)"
  using assms by (simp_all add: middleware_def count_request_def Let_def)

lemma middleware_fresh:
  assumes "prefix ''/api/'' (pathname request)" and "ip request = Some a" and "m a = None"
  shows "status (fst (middleware now dur request m)) = 200"
    and "body (fst (middleware now dur request m)) = Continue"
    and "snd (middleware now dur request m) = m(a \<mapsto> \<lparr>count = 1, resetTime = now + windowMs\<rparr>)"
  using assms by (simp_all add: middleware_def count_request_def Let_def)


lemma middleware_rejected:
  assumes "prefix ''/api/'' (pathname request)" and "ip request = Some a"
    and "m a = Some e" and "now \<le> resetTime e" and "count e \<ge> max_requests"
  shows "fst (middleware now dur request m) =
           \<lparr>status = 429,
            headers = [''Content-Type'' \<mapsto> ''application/json'',
                       ''Retry-After'' \<mapsto> toString (ceil_seconds (resetTime e - now))],
            body = TooManyRequests (ceil_seconds (resetTime e - now))\<rparr>"
    and "snd (middleware now dur request m) = m"
  using assms by (simp_all add: middleware_def count_request_def Let_def)

lemma serve_Request:
  "fst (serve (Request now dur request # es) m) =
     fst (middleware now dur request m) # fst (serve es (snd (middleware now dur request m)))"
  "snd (serve (Request now dur request # es) m) =
     snd (serve es (snd (middleware now dur request m)))"
  by (simp_all add: split_beta)

lemma serve_window:
  assumes "prefix ''/api/'' (pathname request)" and "ip request = Some a"
  shows "m a = Some \<lparr>count = c, resetTime = R\<rparr> \<Longrightarrow> list_all (\<lambda>(now, dur). now \<le> R) ts \<Longrightarrow>
         c + int (length ts) \<le> max_requests \<Longrightarrow>
         map status (fst (serve (requests_at request ts) m)) = replicate (length ts) 200 \<and>
         snd (serve (requests_at request ts) m) =
           m(a \<mapsto> \<lparr>count = c + int (length ts), resetTime = R\<rparr>)"
proof (induction ts arbitrary: m c)
  case Nil
  then show ?case by (simp add: requests_at_def fun_upd_idem)
next
  case (Cons t ts)
  obtain now dur where t: "t = (now, dur)" by (cases t)
  let ?m = "m(a \<mapsto> \<lparr>count = c + 1, resetTime = R\<rparr>)"
  from Cons.prems t have now: "now \<le> R" and c: "c < max_requests" by auto
  note mw = middleware_counted [where m = m and a = a and dur = dur, OF assms Cons.prems(1) now c]
  have "?m a = Some \<lparr>count = c + 1, resetTime = R\<rparr>" by simp
  moreover from Cons.prems have "list_all (\<lambda>(now, dur). now \<le> R) ts" by simp
  moreover from Cons.prems have "(c + 1) + int (length ts) \<le> max_requests" by simp
  ultimately have IH: "map status (fst (serve (requests_at request ts) ?m)) = replicate (length ts) 200 \<and>
         snd (serve (requests_at request ts) ?m) =
           ?m(a \<mapsto> \<lparr>count = (c + 1) + int (length ts), resetTime = R\<rparr>)"
    by (rule Cons.IH)
  have e: "requests_at request (t # ts) = Request now dur request # requests_at request ts"
    by (simp add: requests_at_def t)
  have "map status (fst (serve (requests_at request (t # ts)) m)) = replicate (length (t # ts)) 200"
    unfolding e serve_Request mw(3) using mw(1) IH by simp
  moreover have "snd (serve (requests_at request (t # ts)) m) =
      m(a \<mapsto> \<lparr>count = c + int (length (t # ts)), resetTime = R\<rparr>)"
    unfolding e serve_Request mw(3) using IH by (simp add: add.assoc)
  ultimately show ?case by simp
qed






section \<open>Headers of the rate limiter and the fallback address\<close>

lemma serve_fresh_window:
  assumes "prefix ''/api/'' (pathname request)" and "ip request = Some a" and "m a = None"
    and "list_all (\<lambda>(now, dur). now \<le> t0 + windowMs) ts"
    and "1 + int (length ts) \<le> max_requests"
  shows "snd (serve (requests_at request ((t0, d0) # ts)) m) =
           m(a \<mapsto> \<lparr>count = 1 + int (length ts), resetTime = t0 + windowMs\<rparr>)"
proof -
  let ?m1 = "m(a \<mapsto> \<lparr>count = 1, resetTime = t0 + windowMs\<rparr>)"
  note first = middleware_fresh [where m = m and a = a and now = t0 and dur = d0, OF assms(1,2,3)]
  have "?m1 a = Some \<lparr>count = 1, resetTime = t0 + windowMs\<rparr>" by simp
  from serve_window [where m = ?m1 and a = a, OF assms(1,2) this assms(4,5)]
  have rest: "snd (serve (requests_at request ts) ?m1) =
       ?m1(a \<mapsto> \<lparr>count = 1 + int (length ts), resetTime = t0 + windowMs\<rparr>)"
    by simp
  have e: "requests_at request ((t0, d0) # ts) = Request t0 d0 request # requests_at request ts"
    by (simp add: requests_at_def)
  show ?thesis
    unfolding e serve_Request first(3) using rest by simp
qed

text \<open>
  The 101st request of a window, under \<open>/api/\<close>, from the empty table: the response has
  status 429 and none of the three headers.
\<close>

theorem rejected_response_headers_counterexample:
  "prefix ''/api/'' (pathname \<lparr>pathname = ''/api/gemini'', ip = Some ''203.0.113.7''\<rparr>) \<and>
   status (fst (middleware 3000 0 \<lparr>pathname = ''/api/gemini'', ip = Some ''203.0.113.7''\<rparr>
     (snd (serve (requests_at \<lparr>pathname = ''/api/gemini'', ip = Some ''203.0.113.7''\<rparr>
                    ((1000, 0) # replicate 99 (2000, 0))) Map.empty)))) = 429 \<and>
   headers (fst (middleware 3000 0 \<lparr>pathname = ''/api/gemini'', ip = Some ''203.0.113.7''\<rparr>
     (snd (serve (requests_at \<lparr>pathname = ''/api/gemini'', ip = Some ''203.0.113.7''\<rparr>
                    ((1000, 0) # replicate 99 (2000, 0))) Map.empty))))
     ''X-RateLimit-Limit'' = None \<and>
   headers (fst (middleware 3000 0 \<lparr>pathname = ''/api/gemini'', ip = Some ''203.0.113.7''\<rparr>
     (snd (serve (requests_at \<lparr>pathname = ''/api/gemini'', ip = Some ''203.0.113.7''\<rparr>
                    ((1000, 0) # replicate 99 (2000, 0))) Map.empty))))
     ''X-RateLimit-Remaining'' = None \<and>
   headers (fst (middleware 3000 0 \<lparr>pathname = ''/api/gemini'', ip = Some ''203.0.113.7''\<rparr>
     (snd (serve (requests_at \<lparr>pathname = ''/api/gemini'', ip = Some ''203.0.113.7''\<rparr>
                    ((1000, 0) # replicate 99 (2000, 0))) Map.empty))))
     ''X-RateLimit-Reset'' = None"
proof -
  let ?r = "\<lparr>pathname = ''/api/gemini'', ip = Some ''203.0.113.7''\<rparr>"
  let ?m = "[''203.0.113.7'' \<mapsto> \<lparr>count = 100, resetTime = 61000\<rparr>]"
  have "snd (serve (requests_at ?r ((1000, 0) # replicate 99 (2000, 0))) Map.empty) = ?m"
    using serve_fresh_window [where request = ?r and a = "''203.0.113.7''" and m = Map.empty
        and ts = "replicate 99 (2000, 0)" and ?t0.0 = 1000 and ?d0.0 = 0]
    by (simp add: windowMs_def max_requests_def list_all_iff)
  moreover have "fst (middleware 3000 0 ?r ?m) =
      \<lparr>status = 429,
       headers = [''Content-Type'' \<mapsto> ''application/json'',
                  ''Retry-After'' \<mapsto> toString (ceil_seconds (61000 - 3000))],
       body = TooManyRequests (ceil_seconds (61000 - 3000))\<rparr>"
    using middleware_rejected(1) [where request = ?r and a = "''203.0.113.7''" and m = ?m
        and now = 3000 and dur = 0 and e = "\<lparr>count = 100, resetTime = 61000\<rparr>"]
    by (simp add: max_requests_def)
  ultimately show ?thesis by simp
qed

lemma middleware_status:
  "status (fst (middleware now dur request m)) = 200 \<or>
   status (fst (middleware now dur request m)) = 429"
  by (simp add: middleware_def Let_def split: sum.splits)

text \<open>
  C6, as the code has it. A response to a request under \<open>/api/\<close> has status 200 or 429. With
  status 200 it carries \<open>X-RateLimit-Limit\<close> (the maximum), \<open>X-RateLimit-Remaining\<close> (the
  maximum less the count of the entry) and \<open>X-RateLimit-Reset\<close> (the reset time in seconds,
  rounded up). With status 429 its headers are \<open>Content-Type\<close> and \<open>Retry-After\<close> and no
  other, and the table is unchanged.
\<close>

theorem rate_limit_headers:
  assumes "prefix ''/api/'' (pathname request)"
    and "a = (case ip request of Some addr \<Rightarrow> addr | None \<Rightarrow> ''127.0.0.1'')"
    and "middleware now dur request m = (response, m')"
  shows "(status response = 200 \<or> status response = 429) \<and>
         (status response = 200 \<longrightarrow>
            (\<exists>e. m' a = Some e \<and>
               headers response ''X-RateLimit-Limit'' = Some (toString max_requests) \<and>
               headers response ''X-RateLimit-Remaining'' =
                 Some (toString (max_requests - count e)) \<and>
               headers response ''X-RateLimit-Reset'' =
                 Some (toString (ceil_seconds (resetTime e))))) \<and>
         (status response = 429 \<longrightarrow>
            (\<exists>e. m a = Some e \<and> m' = m \<and>
               headers response =
                 [''Content-Type'' \<mapsto> ''application/json'',
                  ''Retry-After'' \<mapsto> toString (ceil_seconds (resetTime e - now))]))"
proof (cases "count_request now a m")
  case (Inl n)
  then obtain e where "m a = Some e" and "n = ceil_seconds (resetTime e - now)"
    by (auto simp: count_request_def split: option.splits if_splits)
  with Inl assms show ?thesis
    by (auto simp: middleware_def Let_def)
next
  case (Inr m2)
  then obtain e where "m2 a = Some e"
    using count_request_present by fastforce
  with Inr assms show ?thesis
    by (auto simp: middleware_def Let_def)
qed

theorem rate_limit_headers_witness:
  "status (fst (middleware 1000 0 \<lparr>pathname = ''/api/gemini'', ip = Some ''203.0.113.7''\<rparr>
     Map.empty)) = 200 \<and>
   map (headers (fst (middleware 1000 0
          \<lparr>pathname = ''/api/gemini'', ip = Some ''203.0.113.7''\<rparr> Map.empty)))
     [''X-RateLimit-Limit'', ''X-RateLimit-Remaining'', ''X-RateLimit-Reset''] =
     [Some ''100'', Some ''99'', Some ''61'']"
  using rate_limit_headers
    [where request = "\<lparr>pathname = ''/api/gemini'', ip = Some ''203.0.113.7''\<rparr>"
       and a = "''203.0.113.7''" and m = Map.empty and now = 1000 and dur = 0
       and response = "fst (middleware 1000 0
          \<lparr>pathname = ''/api/gemini'', ip = Some ''203.0.113.7''\<rparr> Map.empty)"
       and m' = "snd (middleware 1000 0
          \<lparr>pathname = ''/api/gemini'', ip = Some ''203.0.113.7''\<rparr> Map.empty)"]
  by (simp add: middleware_def count_request_def Let_def windowMs_def max_requests_def
      ceil_seconds_def toString_def digits.simps)

lemma middleware_fallback:
  "ip request = None \<Longrightarrow>
   middleware now dur request m = middleware now dur (request\<lparr>ip := Some ''127.0.0.1''\<rparr>) m"
  by (simp add: middleware_def)

lemma serve_addressless_window:
  "m ''127.0.0.1'' = Some \<lparr>count = c, resetTime = R\<rparr> \<Longrightarrow>
   list_all (addressless_before R) es \<Longrightarrow>
   c + int (length es) \<le> max_requests \<Longrightarrow>
   map status (fst (serve es m)) = replicate (length es) 200 \<and>
   snd (serve es m) = m(''127.0.0.1'' \<mapsto> \<lparr>count = c + int (length es), resetTime = R\<rparr>)"
proof (induction es arbitrary: m c)
  case Nil
  then show ?case by (simp add: fun_upd_idem)
next
  case (Cons e es)
  from Cons.prems(2) obtain now dur request where e: "e = Request now dur request"
    and p: "prefix ''/api/'' (pathname request)" and i: "ip request = None" and now: "now \<le> R"
    by (cases e) auto
  let ?r = "request\<lparr>ip := Some ''127.0.0.1''\<rparr>"
  let ?m = "m(''127.0.0.1'' \<mapsto> \<lparr>count = c + 1, resetTime = R\<rparr>)"
  from Cons.prems have c: "c < max_requests" by simp
  have pr: "prefix ''/api/'' (pathname ?r)" and ir: "ip ?r = Some ''127.0.0.1''"
    using p by simp_all
  note mw = middleware_counted [where m = m and a = "''127.0.0.1''" and dur = dur,
      OF pr ir Cons.prems(1) now c]
  have eq: "middleware now dur request m = middleware now dur ?r m"
    using i by (rule middleware_fallback)
  have "?m ''127.0.0.1'' = Some \<lparr>count = c + 1, resetTime = R\<rparr>" by simp
  moreover from Cons.prems have "list_all (addressless_before R) es" by simp
  moreover from Cons.prems have "(c + 1) + int (length es) \<le> max_requests" by simp
  ultimately have IH: "map status (fst (serve es ?m)) = replicate (length es) 200 \<and>
      snd (serve es ?m) =
        ?m(''127.0.0.1'' \<mapsto> \<lparr>count = (c + 1) + int (length es), resetTime = R\<rparr>)"
    by (rule Cons.IH)
  have "map status (fst (serve (e # es) m)) = replicate (length (e # es)) 200"
    unfolding e serve_Request eq mw(3) using mw(1) IH by simp
  moreover have "snd (serve (e # es) m) =
      m(''127.0.0.1'' \<mapsto> \<lparr>count = c + int (length (e # es)), resetTime = R\<rparr>)"
    unfolding e serve_Request eq mw(3) using IH by (simp add: add.assoc)
  ultimately show ?case by simp
qed

lemma serve_addressless_fresh:
  assumes "prefix ''/api/'' (pathname r1)" and "ip r1 = None" and "m ''127.0.0.1'' = None"
    and "list_all (addressless_before (t1 + windowMs)) es"
    and "int (length es) < max_requests"
  shows "map status (fst (serve (Request t1 d1 r1 # es) m)) = replicate (Suc (length es)) 200"
    and "snd (serve (Request t1 d1 r1 # es) m) =
           m(''127.0.0.1'' \<mapsto> \<lparr>count = 1 + int (length es), resetTime = t1 + windowMs\<rparr>)"
proof -
  let ?r = "r1\<lparr>ip := Some ''127.0.0.1''\<rparr>"
  let ?m1 = "m(''127.0.0.1'' \<mapsto> \<lparr>count = 1, resetTime = t1 + windowMs\<rparr>)"
  have pr: "prefix ''/api/'' (pathname ?r)" and ir: "ip ?r = Some ''127.0.0.1''"
    using assms(1) by simp_all
  note first = middleware_fresh [where m = m and a = "''127.0.0.1''" and now = t1 and dur = d1,
      OF pr ir assms(3)]
  have eq: "middleware t1 d1 r1 m = middleware t1 d1 ?r m"
    using assms(2) by (rule middleware_fallback)
  have "?m1 ''127.0.0.1'' = Some \<lparr>count = 1, resetTime = t1 + windowMs\<rparr>" by simp
  moreover note assms(4)
  moreover from assms(5) have "1 + int (length es) \<le> max_requests" by simp
  ultimately have rest: "map status (fst (serve es ?m1)) = replicate (length es) 200 \<and>
      snd (serve es ?m1) =
        ?m1(''127.0.0.1'' \<mapsto> \<lparr>count = 1 + int (length es), resetTime = t1 + windowMs\<rparr>)"
    by (rule serve_addressless_window)
  show "map status (fst (serve (Request t1 d1 r1 # es) m)) = replicate (Suc (length es)) 200"
    unfolding serve_Request eq first(3) using first(1) rest by simp
  show "snd (serve (Request t1 d1 r1 # es) m) =
           m(''127.0.0.1'' \<mapsto> \<lparr>count = 1 + int (length es), resetTime = t1 + windowMs\<rparr>)"
    unfolding serve_Request eq first(3) using rest by simp
qed

text \<open>
  C10. A request without an address is treated, whatever the table, as a request from
  \<open>127.0.0.1\<close>. So the requests under \<open>/api/\<close> without an address, whoever sent them, are
  counted in the one entry of that address: the request that opens its window and the
  requests without an address that follow in the window, up to 100 in all, are handed on and
  leave the count at their number; and once they are 100, a further request without an
  address in the window is answered with status 429 and changes nothing.
\<close>

theorem missing_address_fallback:
  "(ip request = None \<longrightarrow>
      middleware now dur request m =
        middleware now dur (request\<lparr>ip := Some ''127.0.0.1''\<rparr>) m) \<and>
   (prefix ''/api/'' (pathname r1) \<and> ip r1 = None \<and> m ''127.0.0.1'' = None \<and>
    list_all (addressless_before (t1 + windowMs)) es \<and> int (length es) < max_requests \<longrightarrow>
      map status (fst (serve (Request t1 d1 r1 # es) m)) = replicate (Suc (length es)) 200 \<and>
      snd (serve (Request t1 d1 r1 # es) m) =
        m(''127.0.0.1'' \<mapsto> \<lparr>count = 1 + int (length es), resetTime = t1 + windowMs\<rparr>) \<and>
      (1 + int (length es) = max_requests \<and> prefix ''/api/'' (pathname r) \<and> ip r = None \<and>
       t \<le> t1 + windowMs \<longrightarrow>
         fst (middleware t d r (snd (serve (Request t1 d1 r1 # es) m))) =
           \<lparr>status = 429,
            headers = [''Content-Type'' \<mapsto> ''application/json'',
                       ''Retry-After'' \<mapsto> toString (ceil_seconds (t1 + windowMs - t))],
            body = TooManyRequests (ceil_seconds (t1 + windowMs - t))\<rparr> \<and>
         snd (middleware t d r (snd (serve (Request t1 d1 r1 # es) m))) =
           snd (serve (Request t1 d1 r1 # es) m)))"
proof -
  have A: "ip request = None \<longrightarrow>
      middleware now dur request m =
        middleware now dur (request\<lparr>ip := Some ''127.0.0.1''\<rparr>) m"
    by (simp add: middleware_fallback)
  have B: "map status (fst (serve (Request t1 d1 r1 # es) m)) = replicate (Suc (length es)) 200"
    and C: "snd (serve (Request t1 d1 r1 # es) m) =
        m(''127.0.0.1'' \<mapsto> \<lparr>count = 1 + int (length es), resetTime = t1 + windowMs\<rparr>)"
    if "prefix ''/api/'' (pathname r1)" "ip r1 = None" "m ''127.0.0.1'' = None"
      "list_all (addressless_before (t1 + windowMs)) es" "int (length es) < max_requests"
    using serve_addressless_fresh [where m = m, OF that] by simp_all
  have D: "fst (middleware t d r (snd (serve (Request t1 d1 r1 # es) m))) =
           \<lparr>status = 429,
            headers = [''Content-Type'' \<mapsto> ''application/json'',
                       ''Retry-After'' \<mapsto> toString (ceil_seconds (t1 + windowMs - t))],
            body = TooManyRequests (ceil_seconds (t1 + windowMs - t))\<rparr> \<and>
         snd (middleware t d r (snd (serve (Request t1 d1 r1 # es) m))) =
           snd (serve (Request t1 d1 r1 # es) m)"
    if h: "prefix ''/api/'' (pathname r1)" "ip r1 = None" "m ''127.0.0.1'' = None"
      "list_all (addressless_before (t1 + windowMs)) es" "int (length es) < max_requests"
      and full: "1 + int (length es) = max_requests" and pr: "prefix ''/api/'' (pathname r)"
      and ir: "ip r = None" and t: "t \<le> t1 + windowMs"
  proof -
    let ?m = "m(''127.0.0.1'' \<mapsto> \<lparr>count = max_requests, resetTime = t1 + windowMs\<rparr>)"
    let ?r = "r\<lparr>ip := Some ''127.0.0.1''\<rparr>"
    from C [OF h] full have table: "snd (serve (Request t1 d1 r1 # es) m) = ?m" by simp
    have eq: "middleware t d r ?m = middleware t d ?r ?m"
      using ir by (rule middleware_fallback)
    have p: "prefix ''/api/'' (pathname ?r)" and i: "ip ?r = Some ''127.0.0.1''"
      using pr by simp_all
    have entry: "?m ''127.0.0.1'' = Some \<lparr>count = max_requests, resetTime = t1 + windowMs\<rparr>"
      by simp
    from middleware_rejected [where m = ?m and a = "''127.0.0.1''" and now = t and dur = d,
        OF p i entry] t
    show ?thesis unfolding table eq by simp
  qed
  from A B C D show ?thesis by blast
qed

theorem missing_address_fallback_witness:
  "snd (serve [Request 1000 0 \<lparr>pathname = ''/api/gemini'', ip = None\<rparr>,
               Request 2000 0 \<lparr>pathname = ''/api/health'', ip = None\<rparr>] Map.empty) =
     [''127.0.0.1'' \<mapsto> \<lparr>count = 2, resetTime = 61000\<rparr>] \<and>
   map status (fst (serve (Request 1000 0 \<lparr>pathname = ''/api/gemini'', ip = None\<rparr> #
        replicate 99 (Request 2000 0 \<lparr>pathname = ''/api/health'', ip = None\<rparr>)) Map.empty)) =
     replicate 100 200 \<and>
   status (fst (middleware 3000 0 \<lparr>pathname = ''/api/other'', ip = None\<rparr>
     (snd (serve (Request 1000 0 \<lparr>pathname = ''/api/gemini'', ip = None\<rparr> #
        replicate 99 (Request 2000 0 \<lparr>pathname = ''/api/health'', ip = None\<rparr>))
        Map.empty)))) = 429"
proof -
  let ?r1 = "\<lparr>pathname = ''/api/gemini'', ip = None\<rparr>"
  let ?r2 = "\<lparr>pathname = ''/api/health'', ip = None\<rparr>"
  let ?r3 = "\<lparr>pathname = ''/api/other'', ip = None\<rparr>"
  note two = missing_address_fallback
    [where request = ?r1 and now = 0 and dur = 0 and m = Map.empty and ?r1.0 = ?r1
       and es = "[Request 2000 0 ?r2]" and ?t1.0 = 1000 and ?d1.0 = 0 and r = ?r3
       and t = 3000 and d = 0, THEN conjunct2, rule_format]
  have "snd (serve [Request 1000 0 ?r1, Request 2000 0 ?r2] Map.empty) =
      [''127.0.0.1'' \<mapsto> \<lparr>count = 2, resetTime = 61000\<rparr>]"
    using two [THEN conjunct2, THEN conjunct1]
    by (simp add: windowMs_def max_requests_def)
  moreover
  note full = missing_address_fallback
    [where request = ?r1 and now = 0 and dur = 0 and m = Map.empty and ?r1.0 = ?r1
       and es = "replicate 99 (Request 2000 0 ?r2)" and ?t1.0 = 1000 and ?d1.0 = 0
       and r = ?r3 and t = 3000 and d = 0, THEN conjunct2, rule_format]
  have hyp: "prefix ''/api/'' (pathname ?r1) \<and> ip ?r1 = None \<and>
      Map.empty ''127.0.0.1'' = (None :: RateLimitEntry option) \<and>
      list_all (addressless_before (1000 + windowMs)) (replicate 99 (Request 2000 0 ?r2)) \<and>
      int (length (replicate 99 (Request 2000 0 ?r2))) < max_requests"
    by (simp add: windowMs_def max_requests_def list_all_iff)
  have "map status (fst (serve (Request 1000 0 ?r1 # replicate 99 (Request 2000 0 ?r2))
          Map.empty)) = replicate 100 200"
    using full [OF hyp, THEN conjunct1] by simp
  moreover
  have "fst (middleware 3000 0 ?r3
          (snd (serve (Request 1000 0 ?r1 # replicate 99 (Request 2000 0 ?r2)) Map.empty))) =
        \<lparr>status = 429,
         headers = [''Content-Type'' \<mapsto> ''application/json'',
                    ''Retry-After'' \<mapsto> toString (ceil_seconds (1000 + windowMs - 3000))],
         body = TooManyRequests (ceil_seconds (1000 + windowMs - 3000))\<rparr>"
    using full [OF hyp, THEN conjunct2, THEN conjunct2, rule_format, THEN conjunct1]
    by (simp add: windowMs_def max_requests_def)
  then have "status (fst (middleware 3000 0 ?r3
          (snd (serve (Request 1000 0 ?r1 # replicate 99 (Request 2000 0 ?r2)) Map.empty)))) =
        429"
    by simp
  ultimately show ?thesis by blast
qed

section \<open>The client: the confidence gate and the analyses in flight\<close>

lemma processFrameQueue_busy:
  "processingFrames s \<or> frameQueue s = [] \<Longrightarrow> processFrameQueue now s = s"
  by (subst processFrameQueue.simps) simp

lemma processFrameQueue_idle:
  assumes "\<not> processingFrames s" and "frameQueue s \<noteq> []"
  shows "processFrameQueue now s =
           (if now - lastAnalysisTime s \<ge> analysisInterval s
            then analyzeFrame (last (frameQueue s))
                   (s\<lparr>processingFrames := True, frameQueue := [], lastAnalysisTime := now\<rparr>)
            else s\<lparr>processingFrames := False, frameQueue := []\<rparr>)"
  using assms
  by (subst processFrameQueue.simps) (simp add: Let_def shouldAnalyzeFrame_def)

lemma emit_violations_eq:
  "emit_violations vs s =
     s\<lparr>emitted := emitted s @
          map Violation (filter (\<lambda>v. confidenceThreshold s \<le> confidence v) vs)\<rparr>"
  by (induction vs arbitrary: s) (simp_all add: emit_def)

lemma extractViolations_empty: "extractViolations ts [] = []"
  unfolding extractViolations_def
  by (subst violations_loop.simps) (simp add: match_at_def MARKER_def js_def)

lemma process_parts_eq:
  "process_parts ts ps s =
     s\<lparr>emitted := emitted s @
          map Violation
            (filter (\<lambda>v. confidenceThreshold s \<le> confidence v)
               (concat (map (\<lambda>part. case part_text part of
                                      None \<Rightarrow> []
                                    | Some t \<Rightarrow> extractViolations ts t) ps)))\<rparr>"
proof (induction ps arbitrary: s)
  case Nil
  show ?case by simp
next
  case (Cons part ps)
  show ?case
  proof (cases "part_text part")
    case None
    then show ?thesis by (simp add: Cons.IH)
  next
    case (Some t)
    then show ?thesis
      by (cases "t = []") (simp_all add: Cons.IH emit_violations_eq extractViolations_empty)
  qed
qed

lemma processViolations_eq:
  "processViolations ts response s =
     s\<lparr>emitted := emitted s @
          map Violation
            (filter (\<lambda>v. confidenceThreshold s \<le> confidence v) (produced ts response))\<rparr>"
  by (simp add: processViolations_def produced_def process_parts_eq split: option.splits)

text \<open>
  C5. Of the violation events produced from a reply, \<open>processViolations\<close> emits those whose
  confidence is at or above the threshold of the client, each once and in the order they
  were produced, and none of the others; it emits nothing else and changes nothing else.
\<close>

theorem confidence_gating:
  "emitted (processViolations ts response s) =
     emitted s @
     map Violation (filter (\<lambda>v. confidenceThreshold s \<le> confidence v) (produced ts response)) \<and>
   (\<forall>v. count_list (drop (length (emitted s)) (emitted (processViolations ts response s)))
          (Violation v) =
        (if confidenceThreshold s \<le> confidence v then count_list (produced ts response) v
         else 0))"
proof -
  have cnt: "count_list
          (map Violation (filter (\<lambda>v. confidenceThreshold s \<le> confidence v) xs))
          (Violation v :: 'a signal) =
        (if confidenceThreshold s \<le> confidence v then count_list xs v else 0)" for xs v
    by (induction xs) auto
  show ?thesis
    by (simp add: processViolations_eq cnt)
qed

text \<open>
  A reply with one marker line, at the threshold of a new client (0.7) and at a threshold
  above the confidence that the parser gives (0.9).
\<close>

theorem confidence_gating_witness:
  "emitted (processViolations ''2024-05-01T10:00:00.000Z''
     \<lparr>candidates = Some [\<lparr>content = Some \<lparr>parts = Some
        [\<lparr>part_text = Some (js ''PROCTORING_VIOLATION: Looking Away'')\<rparr>]\<rparr>\<rparr>]\<rparr>
     (new_client ''/api/gemini'' ''key'' :: unit MultimodalLiveClient)) =
   [Violation \<lparr>type = js ''Looking Away'', timestamp = ''2024-05-01T10:00:00.000Z'',
      confidence = 9 / 10, details = Some (js ''PROCTORING_VIOLATION: Looking Away'')\<rparr>] \<and>
   emitted (processViolations ''2024-05-01T10:00:00.000Z''
     \<lparr>candidates = Some [\<lparr>content = Some \<lparr>parts = Some
        [\<lparr>part_text = Some (js ''PROCTORING_VIOLATION: Looking Away'')\<rparr>]\<rparr>\<rparr>]\<rparr>
     ((new_client ''/api/gemini'' ''key'' :: unit MultimodalLiveClient)
        \<lparr>confidenceThreshold := 95 / 100\<rparr>)) = []"
proof -
  let ?text = "js ''PROCTORING_VIOLATION: Looking Away''"
  let ?reply = "\<lparr>candidates = Some [\<lparr>content = Some \<lparr>parts = Some
        [\<lparr>part_text = Some ?text\<rparr>]\<rparr>\<rparr>]\<rparr>"
  have "extractViolations ''2024-05-01T10:00:00.000Z'' ?text =
      [\<lparr>type = js ''Looking Away'', timestamp = ''2024-05-01T10:00:00.000Z'',
        confidence = 9 / 10, details = Some ?text\<rparr>]"
    using violations_loop_lines [of "[MarkerLine [] (js '' Looking Away'')]"
        "''2024-05-01T10:00:00.000Z''" ?text]
    by (simp add: extractViolations_def js_def MARKER_def is_space_def newline_def trim_def)
  then have p: "produced ''2024-05-01T10:00:00.000Z'' ?reply =
      [\<lparr>type = js ''Looking Away'', timestamp = ''2024-05-01T10:00:00.000Z'',
        confidence = 9 / 10, details = Some ?text\<rparr>]"
    by (simp add: produced_def response_parts_def)
  from confidence_gating [of "''2024-05-01T10:00:00.000Z''" ?reply
      "new_client ''/api/gemini'' ''key'' :: unit MultimodalLiveClient"]
    confidence_gating [of "''2024-05-01T10:00:00.000Z''" ?reply
      "(new_client ''/api/gemini'' ''key'' :: unit MultimodalLiveClient)
         \<lparr>confidenceThreshold := 95 / 100\<rparr>"]
  show ?thesis
    unfolding p by (simp add: new_client_def)
qed

lemma sendVideoFrame_busy:
  "processingFrames s \<Longrightarrow>
   sendVideoFrame frameData now s = s\<lparr>frameQueue := frameQueue s @ [new_frame frameData now]\<rparr>"
  by (simp add: sendVideoFrame_def Let_def)

lemma sendVideoFrame_idle:
  "\<not> processingFrames s \<Longrightarrow>
   sendVideoFrame frameData now s =
     (if now - lastAnalysisTime s \<ge> analysisInterval s
      then analyzeFrame (new_frame frameData now)
             (s\<lparr>processingFrames := True, frameQueue := [], lastAnalysisTime := now\<rparr>)
      else s\<lparr>processingFrames := False, frameQueue := []\<rparr>)"
  by (simp add: sendVideoFrame_def Let_def processFrameQueue_idle)

lemma finally_block_eq:
  "finally_block now s =
     (if frameQueue s = [] then s\<lparr>processingFrames := False\<rparr>
      else if now - lastAnalysisTime s \<ge> analysisInterval s
      then analyzeFrame (last (frameQueue s))
             (s\<lparr>processingFrames := True, frameQueue := [], lastAnalysisTime := now\<rparr>)
      else s\<lparr>processingFrames := False, frameQueue := []\<rparr>)"
  by (simp add: finally_block_def Let_def processFrameQueue_idle)

lemma new_client_consistent: "consistent (new_client u k)"
  by (simp add: consistent_def new_client_def)

lemma sendVideoFrame_consistent:
  "consistent s \<Longrightarrow> consistent (sendVideoFrame frameData now s)"
  by (cases "processingFrames s")
    (auto simp: consistent_def sendVideoFrame_busy sendVideoFrame_idle analyzeFrame_def)

lemma resumed_consistent:
  "consistent s \<Longrightarrow> consistent (resumed i now s)"
  by (cases "pending s")
    (auto simp: consistent_def resumed_def finally_block_eq analyzeFrame_def)

lemma step_consistent:
  assumes "consistent s"
  shows "consistent (step e s)"
proof (cases e)
  case (SendVideoFrame frameData now)
  with assms show ?thesis by (simp add: sendVideoFrame_consistent)
next
  case (Resumed i now)
  with assms show ?thesis by (simp add: resumed_consistent)
next
  case (JsonSettled i reply ts)
  with assms show ?thesis
    by (auto simp: consistent_def json_settled_def processViolations_eq emit_def
        split: option.splits)
qed (use assms in \<open>auto simp: consistent_def connect_settled_def disconnect_def sendConfig_def
       emit_def fetch_settled_def split: fetch_result.splits\<close>)

lemma run_consistent:
  "consistent s \<Longrightarrow> consistent (run es s)"
  by (induction es arbitrary: s) (simp_all add: step_consistent)

lemma run_append: "run (es @ es') s = run es' (run es s)"
  by (induction es arbitrary: s) simp_all

text \<open>
  The requests made so far, counted with one more while no analysis is in flight: only a
  completion raises this number, and by one.
\<close>

lemma step_fetches:
  assumes "consistent s"
  shows "length (fetches (step e s)) + (if pending (step e s) = [] then 1 else 0) \<le>
         length (fetches s) + (if pending s = [] then 1 else 0) +
         (if is_completion e then 1 else 0)"
proof (cases e)
  case (SendVideoFrame frameData now)
  with assms show ?thesis
    by (cases "processingFrames s")
      (auto simp: consistent_def sendVideoFrame_busy sendVideoFrame_idle analyzeFrame_def)
next
  case (Resumed i now)
  with assms show ?thesis
    by (cases "pending s")
      (auto simp: consistent_def resumed_def finally_block_eq analyzeFrame_def)
next
  case (JsonSettled i reply ts)
  then show ?thesis
    by (auto simp: json_settled_def processViolations_eq emit_def split: option.splits)
qed (auto simp: connect_settled_def disconnect_def sendConfig_def emit_def
       fetch_settled_def split: fetch_result.splits)

lemma run_fetches:
  "consistent s \<Longrightarrow>
   length (fetches (run es s)) + (if pending (run es s) = [] then 1 else 0) \<le>
   length (fetches s) + (if pending s = [] then 1 else 0) + length (filter is_completion es)"
proof (induction es arbitrary: s)
  case Nil
  show ?case by simp
next
  case (Cons e es)
  from Cons.prems have "consistent (step e s)" by (rule step_consistent)
  from Cons.IH [OF this] step_fetches [OF Cons.prems, of e]
  show ?case by (simp split: if_splits)
qed

text \<open>
  The requests made so far, counted with one more while frames wait in the queue: no event
  other than a submission raises this number. The frames that wait are good for one
  request at most, however many they are.
\<close>

lemma step_queue_fetches:
  assumes "\<not> is_submission e"
  shows "length (fetches (step e s)) + (if frameQueue (step e s) = [] then 0 else 1) \<le>
         length (fetches s) + (if frameQueue s = [] then 0 else 1)"
proof (cases e)
  case (SendVideoFrame frameData now)
  with assms show ?thesis by simp
next
  case (Resumed i now)
  then show ?thesis
    by (auto simp: resumed_def finally_block_eq analyzeFrame_def)
next
  case (JsonSettled i reply ts)
  then show ?thesis
    by (auto simp: json_settled_def processViolations_eq emit_def split: option.splits)
qed (auto simp: connect_settled_def disconnect_def sendConfig_def emit_def
       fetch_settled_def split: fetch_result.splits)

lemma run_queue_fetches:
  "list_all (\<lambda>e. \<not> is_submission e) es \<Longrightarrow>
   length (fetches (run es s)) + (if frameQueue (run es s) = [] then 0 else 1) \<le>
   length (fetches s) + (if frameQueue s = [] then 0 else 1)"
proof (induction es arbitrary: s)
  case Nil
  show ?case by simp
next
  case (Cons e es)
  then have "\<not> is_submission e" and "list_all (\<lambda>e. \<not> is_submission e) es" by simp_all
  from step_queue_fetches [OF this(1), of s] Cons.IH [OF this(2), of "step e s"]
  show ?case by simp
qed

lemma run_submissions_busy:
  "processingFrames s \<Longrightarrow> list_all is_submission es \<Longrightarrow>
   processingFrames (run es s) \<and> fetches (run es s) = fetches s \<and>
   pending (run es s) = pending s"
proof (induction es arbitrary: s)
  case Nil
  then show ?case by simp
next
  case (Cons e es)
  from Cons.prems(2) obtain frameData now where e: "e = SendVideoFrame frameData now"
    by (cases e) auto
  let ?s = "s\<lparr>frameQueue := frameQueue s @ [new_frame frameData now]\<rparr>"
  from Cons.prems(1) have st: "step e s = ?s" by (simp add: e sendVideoFrame_busy)
  from Cons.prems have "processingFrames ?s" and "list_all is_submission es" by simp_all
  from Cons.IH [OF this] st show ?case by simp
qed

text \<open>
  C3. In every run of a new client at most one analysis is in flight. While one is in
  flight, a submitted frame starts no request and leaves that one in flight. Frames
  submitted in a burst while it is in flight, however many, start no request, and after
  the burst, whatever happens short of a new submission (the analysis in flight ends, and
  so does every analysis after it), at most one further request is made. In general the
  number of further requests is at most the number of analyses that come to their end.
\<close>

theorem one_analysis_in_flight:
  "in_flight (run es (new_client u k)) \<le> 1 \<and>
   (in_flight (run es (new_client u k)) = 1 \<longrightarrow>
      fetches (sendVideoFrame frameData now (run es (new_client u k))) =
        fetches (run es (new_client u k)) \<and>
      in_flight (sendVideoFrame frameData now (run es (new_client u k))) = 1 \<and>
      length (fetches (run (es @ es') (new_client u k))) \<le>
        length (fetches (run es (new_client u k))) + length (filter is_completion es') \<and>
      (list_all is_submission burst \<and> list_all (\<lambda>e. \<not> is_submission e) later \<longrightarrow>
         fetches (run (es @ burst) (new_client u k)) = fetches (run es (new_client u k)) \<and>
         in_flight (run (es @ burst) (new_client u k)) = 1 \<and>
         length (fetches (run (es @ burst @ later) (new_client u k))) \<le>
           length (fetches (run es (new_client u k))) + 1))"
proof -
  let ?s = "run es (new_client u k)"
  have c: "consistent ?s"
    by (intro run_consistent new_client_consistent)
  then have "in_flight ?s \<le> 1"
    by (simp add: consistent_def in_flight_def)
  moreover have "fetches (sendVideoFrame frameData now ?s) = fetches ?s"
    and "in_flight (sendVideoFrame frameData now ?s) = 1"
    and "length (fetches (run (es @ es') (new_client u k))) \<le>
           length (fetches ?s) + length (filter is_completion es')"
    and "list_all is_submission burst \<and> list_all (\<lambda>e. \<not> is_submission e) later \<longrightarrow>
         fetches (run (es @ burst) (new_client u k)) = fetches ?s \<and>
         in_flight (run (es @ burst) (new_client u k)) = 1 \<and>
         length (fetches (run (es @ burst @ later) (new_client u k))) \<le>
           length (fetches ?s) + 1"
    if "in_flight ?s = 1"
  proof -
    from that have p: "pending ?s \<noteq> []" by (auto simp: in_flight_def)
    with c have busy: "processingFrames ?s" by (simp add: consistent_def)
    from busy show "fetches (sendVideoFrame frameData now ?s) = fetches ?s"
      by (simp add: sendVideoFrame_busy)
    from busy that show "in_flight (sendVideoFrame frameData now ?s) = 1"
      by (simp add: sendVideoFrame_busy in_flight_def)
    from run_fetches [OF c, of es'] p
    show "length (fetches (run (es @ es') (new_client u k))) \<le>
           length (fetches ?s) + length (filter is_completion es')"
      by (simp add: run_append split: if_splits)
    show "list_all is_submission burst \<and> list_all (\<lambda>e. \<not> is_submission e) later \<longrightarrow>
         fetches (run (es @ burst) (new_client u k)) = fetches ?s \<and>
         in_flight (run (es @ burst) (new_client u k)) = 1 \<and>
         length (fetches (run (es @ burst @ later) (new_client u k))) \<le>
           length (fetches ?s) + 1"
    proof (intro impI, elim conjE)
      assume b: "list_all is_submission burst"
        and l: "list_all (\<lambda>e. \<not> is_submission e) later"
      from run_submissions_busy [OF busy b]
      have f: "fetches (run burst ?s) = fetches ?s" and q: "pending (run burst ?s) = pending ?s"
        by simp_all
      from run_queue_fetches [OF l, of "run burst ?s"] f
      have "length (fetches (run later (run burst ?s))) \<le> length (fetches ?s) + 1"
        by (simp split: if_splits)
      with f q that
      show "fetches (run (es @ burst) (new_client u k)) = fetches ?s \<and>
         in_flight (run (es @ burst) (new_client u k)) = 1 \<and>
         length (fetches (run (es @ burst @ later) (new_client u k))) \<le>
           length (fetches ?s) + 1"
        by (simp add: run_append in_flight_def)
    qed
  qed
  ultimately show ?thesis by blast
qed

text \<open>
  One frame is being analysed; three more are submitted; the reply comes and the analysis
  ends, and so does the one after it: one further request in all, for the last of the
  three.
\<close>

theorem one_analysis_in_flight_witness:
  "in_flight (run [SendVideoFrame ''data:image/jpeg;base64,AAAA'' 1700000000000]
               (new_client ''/api/gemini'' ''key'' :: unit MultimodalLiveClient)) = 1 \<and>
   length (fetches (run ([SendVideoFrame ''data:image/jpeg;base64,AAAA'' 1700000000000] @
                         [SendVideoFrame ''data:image/jpeg;base64,BBBB'' 1700000001000,
                          SendVideoFrame ''data:image/jpeg;base64,CCCC'' 1700000002000,
                          SendVideoFrame ''data:image/jpeg;base64,DDDD'' 1700000003000] @
                         [FetchSettled 0 HttpOk,
                          JsonSettled 0 (Some \<lparr>candidates = None\<rparr>) ''2023-11-14T22:13:23.500Z'',
                          Resumed 0 1700000003500,
                          FetchSettled 0 Rejected,
                          Resumed 0 1700000006000])
             (new_client ''/api/gemini'' ''key'' :: unit MultimodalLiveClient))) \<le>
   length (fetches (run [SendVideoFrame ''data:image/jpeg;base64,AAAA'' 1700000000000]
               (new_client ''/api/gemini'' ''key'' :: unit MultimodalLiveClient))) + 1 \<and>
   map data (fetches (run ([SendVideoFrame ''data:image/jpeg;base64,AAAA'' 1700000000000] @
                         [SendVideoFrame ''data:image/jpeg;base64,BBBB'' 1700000001000,
                          SendVideoFrame ''data:image/jpeg;base64,CCCC'' 1700000002000,
                          SendVideoFrame ''data:image/jpeg;base64,DDDD'' 1700000003000] @
                         [FetchSettled 0 HttpOk,
                          JsonSettled 0 (Some \<lparr>candidates = None\<rparr>) ''2023-11-14T22:13:23.500Z'',
                          Resumed 0 1700000003500,
                          FetchSettled 0 Rejected,
                          Resumed 0 1700000006000])
             (new_client ''/api/gemini'' ''key'' :: unit MultimodalLiveClient))) =
     [''AAAA'', ''DDDD'']"
proof -
  let ?c = "new_client ''/api/gemini'' ''key'' :: unit MultimodalLiveClient"
  let ?es = "[SendVideoFrame ''data:image/jpeg;base64,AAAA'' 1700000000000] :: unit event list"
  let ?burst = "[SendVideoFrame ''data:image/jpeg;base64,BBBB'' 1700000001000,
                 SendVideoFrame ''data:image/jpeg;base64,CCCC'' 1700000002000,
                 SendVideoFrame ''data:image/jpeg;base64,DDDD'' 1700000003000] :: unit event list"
  let ?later = "[FetchSettled 0 HttpOk,
                 JsonSettled 0 (Some \<lparr>candidates = None\<rparr>) ''2023-11-14T22:13:23.500Z'',
                 Resumed 0 1700000003500,
                 FetchSettled 0 Rejected,
                 Resumed 0 1700000006000] :: unit event list"
  have one: "in_flight (run ?es ?c) = 1"
    by (simp add: in_flight_def new_client_def sendVideoFrame_idle analyzeFrame_def)
  have shape: "list_all is_submission ?burst \<and> list_all (\<lambda>e. \<not> is_submission e) ?later"
    by simp
  from one_analysis_in_flight
    [where es = ?es and u = "''/api/gemini''" and k = "''key''" and burst = ?burst
       and later = ?later and es' = "[]" and frameData = "[]" and now = 0,
     THEN conjunct2, rule_format, OF one, THEN conjunct2, THEN conjunct2, THEN conjunct2,
     rule_format, OF shape, THEN conjunct2, THEN conjunct2]
  have bound: "length (fetches (run (?es @ ?burst @ ?later) ?c)) \<le>
      length (fetches (run ?es ?c)) + 1" .
  have posts: "map data (fetches (run (?es @ ?burst @ ?later) ?c)) = [''AAAA'', ''DDDD'']"
    by (simp add: new_client_def sendVideoFrame_idle sendVideoFrame_busy analyzeFrame_def
        fetch_settled_def json_settled_def processViolations_eq produced_def
        response_parts_def resumed_def finally_block_eq emit_def build_request_def
        new_frame_def after_comma_def)
  from one bound posts show ?thesis by blast
qed

section \<open>The client: frames that are not analysed, and the connection flag\<close>

lemma resumed_last:
  assumes "pending s = [AwaitReturn]"
  shows "resumed 0 now s = finally_block now (s\<lparr>pending := []\<rparr>)"
  using assms by (simp add: resumed_def)

text \<open>
  C4, as the code has it. A frame submitted while no analysis is in flight and before the
  interval has elapsed is discarded at once: the queue is emptied and nothing else changes.
  A frame submitted while an analysis is in flight is appended to the queue and nothing else
  changes. When an activation ends with frames in the queue, the queue is emptied, and the
  last frame of the queue, and no other, is sent for analysis if the interval has elapsed
  by then.
\<close>

theorem ineligible_frame:
  "(\<not> processingFrames s \<and> now - lastAnalysisTime s < analysisInterval s \<longrightarrow>
      sendVideoFrame frameData now s = s\<lparr>frameQueue := []\<rparr>) \<and>
   (processingFrames s \<longrightarrow>
      sendVideoFrame frameData now s =
        s\<lparr>frameQueue := frameQueue s @ [new_frame frameData now]\<rparr>) \<and>
   (pending s = [AwaitReturn] \<and> frameQueue s \<noteq> [] \<longrightarrow>
      frameQueue (resumed 0 now s) = [] \<and>
      fetches (resumed 0 now s) =
        (if now - lastAnalysisTime s \<ge> analysisInterval s
         then fetches s @ [build_request (last (frameQueue s))]
         else fetches s))"
  by (auto simp: sendVideoFrame_busy sendVideoFrame_idle resumed_last finally_block_eq
      analyzeFrame_def)

text \<open>
  A new client analyses a first frame, and the analysis fails and ends. A second frame comes
  half a second later: the queue is empty after it. A third frame comes two seconds after
  that and is analysed; the second never is.
\<close>

theorem ineligible_frame_counterexample:
  "in_flight (run [SendVideoFrame ''data:image/jpeg;base64,AAAA'' 1700000000000,
                   FetchSettled 0 Rejected, Resumed 0 1700000000100]
               (new_client ''/api/gemini'' ''key'' :: unit MultimodalLiveClient)) = 0 \<and>
   frameQueue (run [SendVideoFrame ''data:image/jpeg;base64,AAAA'' 1700000000000,
                    FetchSettled 0 Rejected, Resumed 0 1700000000100,
                    SendVideoFrame ''data:image/jpeg;base64,BBBB'' 1700000000500]
               (new_client ''/api/gemini'' ''key'' :: unit MultimodalLiveClient)) = [] \<and>
   map data (fetches (run [SendVideoFrame ''data:image/jpeg;base64,AAAA'' 1700000000000,
                    FetchSettled 0 Rejected, Resumed 0 1700000000100,
                    SendVideoFrame ''data:image/jpeg;base64,BBBB'' 1700000000500,
                    SendVideoFrame ''data:image/jpeg;base64,CCCC'' 1700000002500]
               (new_client ''/api/gemini'' ''key'' :: unit MultimodalLiveClient))) =
     [''AAAA'', ''CCCC'']"
  by (simp add: in_flight_def new_client_def sendVideoFrame_idle sendVideoFrame_busy
      analyzeFrame_def fetch_settled_def resumed_def finally_block_eq emit_def
      build_request_def new_frame_def after_comma_def)

theorem ineligible_frame_witness:
  "sendVideoFrame ''data:image/jpeg;base64,BBBB'' 1700000000500
     ((new_client ''/api/gemini'' ''key'' :: unit MultimodalLiveClient)
        \<lparr>lastAnalysisTime := 1700000000000\<rparr>) =
   (new_client ''/api/gemini'' ''key'')\<lparr>lastAnalysisTime := 1700000000000\<rparr> \<and>
   frameQueue (sendVideoFrame ''data:image/jpeg;base64,BBBB'' 1700000000500
     ((new_client ''/api/gemini'' ''key'' :: unit MultimodalLiveClient)
        \<lparr>lastAnalysisTime := 1700000000000, processingFrames := True,
         pending := [AwaitFetch]\<rparr>)) =
     [new_frame ''data:image/jpeg;base64,BBBB'' 1700000000500] \<and>
   fetches (resumed 0 1700000002000
     ((new_client ''/api/gemini'' ''key'' :: unit MultimodalLiveClient)
        \<lparr>lastAnalysisTime := 1700000000000, processingFrames := True,
         pending := [AwaitReturn],
         frameQueue := [new_frame ''data:image/jpeg;base64,BBBB'' 1700000000500,
                        new_frame ''data:image/jpeg;base64,CCCC'' 1700000001500]\<rparr>)) =
     [build_request (new_frame ''data:image/jpeg;base64,CCCC'' 1700000001500)]"
proof -
  let ?c = "(new_client ''/api/gemini'' ''key'' :: unit MultimodalLiveClient)
              \<lparr>lastAnalysisTime := 1700000000000\<rparr>"
  from ineligible_frame [of ?c 1700000000500 "''data:image/jpeg;base64,BBBB''"]
  have "sendVideoFrame ''data:image/jpeg;base64,BBBB'' 1700000000500 ?c = ?c"
    by (simp add: new_client_def)
  moreover
  from ineligible_frame [of "?c\<lparr>processingFrames := True, pending := [AwaitFetch]\<rparr>"
      1700000000500 "''data:image/jpeg;base64,BBBB''"]
  have "frameQueue (sendVideoFrame ''data:image/jpeg;base64,BBBB'' 1700000000500
          (?c\<lparr>processingFrames := True, pending := [AwaitFetch]\<rparr>)) =
        [new_frame ''data:image/jpeg;base64,BBBB'' 1700000000500]"
    by (simp add: new_client_def)
  moreover
  from ineligible_frame [of "?c\<lparr>processingFrames := True, pending := [AwaitReturn],
         frameQueue := [new_frame ''data:image/jpeg;base64,BBBB'' 1700000000500,
                        new_frame ''data:image/jpeg;base64,CCCC'' 1700000001500]\<rparr>"
      1700000002000]
  have "fetches (resumed 0 1700000002000
          (?c\<lparr>processingFrames := True, pending := [AwaitReturn],
         frameQueue := [new_frame ''data:image/jpeg;base64,BBBB'' 1700000000500,
                        new_frame ''data:image/jpeg;base64,CCCC'' 1700000001500]\<rparr>)) =
     [build_request (new_frame ''data:image/jpeg;base64,CCCC'' 1700000001500)]"
    by (simp add: new_client_def)
  ultimately show ?thesis by simp
qed

text \<open>
  C7, as the code has it. \<open>sendConfig\<close> of the provider, called while there is no client or
  the client is not connected, logs a warning and does nothing else: no \<open>config\<close> event is
  emitted. Called while the client is connected, it emits one \<open>config\<close> event with the
  payload it was given and logs no warning. \<open>sendConfig\<close> of the client itself emits the
  \<open>config\<close> event with the payload in every state, connected or not.
\<close>

theorem sendConfig_gate:
  "(client p = None \<or> (\<exists>c. client p = Some c \<and> \<not> connected c) \<longrightarrow>
      provider_sendConfig config p =
        p\<lparr>warnings := warnings p @ [''Cannot send config: client not connected'']\<rparr>) \<and>
   (client p = Some c \<and> connected c \<longrightarrow>
      provider_sendConfig config p =
        p\<lparr>client := Some (c\<lparr>emitted := emitted c @ [Config config]\<rparr>)\<rparr>) \<and>
   sendConfig config s = s\<lparr>emitted := emitted s @ [Config config]\<rparr>"
  by (auto simp: provider_sendConfig_def isConnected_def sendConfig_def emit_def)

theorem sendConfig_gate_witness:
  "provider_sendConfig ''strictness: high''
     \<lparr>client = Some (new_client ''/api/gemini'' ''key''), warnings = []\<rparr> =
   \<lparr>client = Some (new_client ''/api/gemini'' ''key''),
    warnings = [''Cannot send config: client not connected'']\<rparr> \<and>
   provider_sendConfig ''strictness: high''
     \<lparr>client = Some (connect_settled True (new_client ''/api/gemini'' ''key'')),
      warnings = []\<rparr> =
   \<lparr>client = Some ((new_client ''/api/gemini'' ''key'')
       \<lparr>connected := True, emitted := [Open, Config ''strictness: high'']\<rparr>),
    warnings = []\<rparr>"
proof -
  let ?c = "new_client ''/api/gemini'' ''key'' :: string MultimodalLiveClient"
  from sendConfig_gate [where p = "\<lparr>client = Some ?c, warnings = []\<rparr>"
      and config = "''strictness: high''" and c = ?c and s = ?c]
  have "provider_sendConfig ''strictness: high'' \<lparr>client = Some ?c, warnings = []\<rparr> =
      \<lparr>client = Some ?c, warnings = [''Cannot send config: client not connected'']\<rparr>"
    by (simp add: new_client_def)
  moreover
  from sendConfig_gate [where p = "\<lparr>client = Some (connect_settled True ?c), warnings = []\<rparr>"
      and c = "connect_settled True ?c" and config = "''strictness: high''" and s = ?c]
  have "provider_sendConfig ''strictness: high''
          \<lparr>client = Some (connect_settled True ?c), warnings = []\<rparr> =
        \<lparr>client = Some (?c\<lparr>connected := True, emitted := [Open, Config ''strictness: high'']\<rparr>),
         warnings = []\<rparr>"
    by (simp add: new_client_def connect_settled_def emit_def)
  ultimately show ?thesis by simp
qed

text \<open>
  A new client is not connected; \<open>sendConfig\<close> on it emits the \<open>config\<close> event, as the test
  of the repository expects.
\<close>

theorem sendConfig_gate_counterexample:
  "\<not> isConnected (new_client ''/api/gemini'' ''key'' :: string MultimodalLiveClient) \<and>
   emitted (sendConfig ''strictness: high''
              (new_client ''/api/gemini'' ''key'' :: string MultimodalLiveClient)) =
     [Config ''strictness: high'']"
  by (simp add: isConnected_def new_client_def sendConfig_def emit_def)

lemma sendVideoFrame_connected:
  "sendVideoFrame frameData now (s\<lparr>connected := b\<rparr>) =
     (sendVideoFrame frameData now s)\<lparr>connected := b\<rparr>"
  by (cases "processingFrames s")
    (simp_all add: sendVideoFrame_busy sendVideoFrame_idle analyzeFrame_def)

text \<open>
  C8, as the code has it. \<open>sendVideoFrame\<close> does not read the connection flag: whatever the
  flag is, the frame is queued and analysed in the same way, so a frame submitted to a
  client that is not connected starts a request when no analysis is in flight and the
  interval has elapsed. The check is in the caller: \<open>captureFrame\<close> of \<open>VideoProctor\<close> submits
  nothing while it sees the provider as not connected, and submits the captured frame while
  it sees it as connected.
\<close>

theorem frames_and_connection:
  "sendVideoFrame frameData now (s\<lparr>connected := b\<rparr>) =
     (sendVideoFrame frameData now s)\<lparr>connected := b\<rparr> \<and>
   (\<not> processingFrames s \<and> now - lastAnalysisTime s \<ge> analysisInterval s \<longrightarrow>
      fetches (sendVideoFrame frameData now s) =
        fetches s @ [build_request (new_frame frameData now)]) \<and>
   captureFrame video False capture now cl = cl \<and>
   (d \<noteq> [] \<longrightarrow>
      captureFrame True True (Some d) now (Some s) = Some (sendVideoFrame d now s))"
  by (auto simp: sendVideoFrame_connected sendVideoFrame_idle analyzeFrame_def captureFrame_def
      split: option.splits)

theorem frames_and_connection_witness:
  "fetches (sendVideoFrame ''data:image/jpeg;base64,AAAA'' 1700000000000
     (new_client ''/api/gemini'' ''key'' :: unit MultimodalLiveClient)) =
     [build_request (new_frame ''data:image/jpeg;base64,AAAA'' 1700000000000)] \<and>
   captureFrame True True (Some ''data:image/jpeg;base64,AAAA'') 1700000000000
     (Some (new_client ''/api/gemini'' ''key'' :: unit MultimodalLiveClient)) =
     Some (sendVideoFrame ''data:image/jpeg;base64,AAAA'' 1700000000000
        (new_client ''/api/gemini'' ''key''))"
proof -
  note t = frames_and_connection
    [where frameData = "''data:image/jpeg;base64,AAAA''" and now = 1700000000000
       and s = "new_client ''/api/gemini'' ''key'' :: unit MultimodalLiveClient"
       and d = "''data:image/jpeg;base64,AAAA''" and b = False and video = True
       and capture = None and cl = None]
  from t [THEN conjunct2, THEN conjunct1]
  have "fetches (sendVideoFrame ''data:image/jpeg;base64,AAAA'' 1700000000000
     (new_client ''/api/gemini'' ''key'' :: unit MultimodalLiveClient)) =
     [build_request (new_frame ''data:image/jpeg;base64,AAAA'' 1700000000000)]"
    by (simp add: new_client_def)
  moreover from t [THEN conjunct2, THEN conjunct2, THEN conjunct2]
  have "captureFrame True True (Some ''data:image/jpeg;base64,AAAA'') 1700000000000
     (Some (new_client ''/api/gemini'' ''key'' :: unit MultimodalLiveClient)) =
     Some (sendVideoFrame ''data:image/jpeg;base64,AAAA'' 1700000000000
        (new_client ''/api/gemini'' ''key''))"
    by simp
  ultimately show ?thesis by blast
qed

text \<open>
  A new client, never connected, is given a frame: the request for it is made.
\<close>

theorem frames_and_connection_counterexample:
  "\<not> isConnected (new_client ''/api/gemini'' ''key'' :: unit MultimodalLiveClient) \<and>
   map data (fetches (sendVideoFrame ''data:image/jpeg;base64,AAAA'' 1700000000000
     (new_client ''/api/gemini'' ''key'' :: unit MultimodalLiveClient))) = [''AAAA''] \<and>
   in_flight (sendVideoFrame ''data:image/jpeg;base64,AAAA'' 1700000000000
     (new_client ''/api/gemini'' ''key'' :: unit MultimodalLiveClient)) = 1"
  by (simp add: isConnected_def in_flight_def new_client_def sendVideoFrame_idle
      analyzeFrame_def build_request_def new_frame_def after_comma_def)

text \<open>
  C9, as the code has it. \<open>disconnect\<close> of the client leaves it not connected and emits one
  \<open>close\<close> signal, whatever the state: on a client that is not connected it changes nothing
  but emits \<open>close\<close> again. \<open>disconnect\<close> of the provider calls it only while the client is
  connected, and does nothing otherwise.
\<close>

theorem disconnect_signals:
  "\<not> connected (disconnect s) \<and>
   emitted (disconnect s) = emitted s @ [Close] \<and>
   (\<not> connected s \<longrightarrow> disconnect s = s\<lparr>emitted := emitted s @ [Close]\<rparr>) \<and>
   (client p = None \<or> (\<exists>c. client p = Some c \<and> \<not> connected c) \<longrightarrow>
      provider_disconnect p = p) \<and>
   (client p = Some c \<and> connected c \<longrightarrow>
      provider_disconnect p =
        p\<lparr>client := Some (c\<lparr>connected := False, emitted := emitted c @ [Close]\<rparr>)\<rparr>)"
  by (auto simp: disconnect_def emit_def provider_disconnect_def isConnected_def)

theorem disconnect_signals_witness:
  "disconnect (new_client ''/api/gemini'' ''key'' :: unit MultimodalLiveClient) =
     (new_client ''/api/gemini'' ''key'')\<lparr>emitted := [Close]\<rparr> \<and>
   provider_disconnect
     \<lparr>client = Some (new_client ''/api/gemini'' ''key'' :: unit MultimodalLiveClient),
      warnings = []\<rparr> =
     \<lparr>client = Some (new_client ''/api/gemini'' ''key''), warnings = []\<rparr> \<and>
   provider_disconnect
     \<lparr>client = Some (connect_settled True
        (new_client ''/api/gemini'' ''key'' :: unit MultimodalLiveClient)),
      warnings = []\<rparr> =
     \<lparr>client = Some ((new_client ''/api/gemini'' ''key'')\<lparr>emitted := [Open, Close]\<rparr>),
      warnings = []\<rparr>"
proof -
  let ?c = "new_client ''/api/gemini'' ''key'' :: unit MultimodalLiveClient"
  from disconnect_signals [where s = ?c and p = "\<lparr>client = Some ?c, warnings = []\<rparr>"
      and c = ?c]
  have "disconnect ?c = ?c\<lparr>emitted := [Close]\<rparr>"
    and "provider_disconnect \<lparr>client = Some ?c, warnings = []\<rparr> =
         \<lparr>client = Some ?c, warnings = []\<rparr>"
    by (simp_all add: new_client_def)
  moreover
  from disconnect_signals
    [where p = "\<lparr>client = Some (connect_settled True ?c), warnings = []\<rparr>"
       and c = "connect_settled True ?c" and s = ?c]
  have "provider_disconnect \<lparr>client = Some (connect_settled True ?c), warnings = []\<rparr> =
        \<lparr>client = Some (?c\<lparr>emitted := [Open, Close]\<rparr>), warnings = []\<rparr>"
    by (simp add: new_client_def connect_settled_def emit_def)
  ultimately show ?thesis by simp
qed

text \<open>
  \<open>disconnect\<close> on a new client, which is not connected, emits \<open>close\<close>; a second call emits
  it once more.
\<close>

theorem disconnect_signals_counterexample:
  "\<not> isConnected (new_client ''/api/gemini'' ''key'' :: unit MultimodalLiveClient) \<and>
   emitted (disconnect (new_client ''/api/gemini'' ''key'' :: unit MultimodalLiveClient)) =
     [Close] \<and>
   emitted (disconnect (disconnect
     (new_client ''/api/gemini'' ''key'' :: unit MultimodalLiveClient))) = [Close, Close] \<and>
   disconnect (new_client ''/api/gemini'' ''key'' :: unit MultimodalLiveClient) \<noteq>
     new_client ''/api/gemini'' ''key''"
  by (simp add: isConnected_def new_client_def disconnect_def emit_def)

end
